theory Spec2Isabelle
  imports Complex_Main "HOL-Library.Multiset"
begin

section \<open>Outcomes of a computation\<close>

text \<open>
  The Python exceptions that the modelled code can raise: \<^verbatim>\<open>random.choice\<close> on an
  empty sequence (IndexError), unpacking \<^verbatim>\<open>None\<close> (TypeError) and
  \<^verbatim>\<open>list.remove\<close> of an absent element (ValueError).
\<close>

datatype error = IndexError | TypeError | ValueError

text \<open>
  A computation either does not return (\<open>None\<close>: the distractor loop of
  \<^verbatim>\<open>make_new_question\<close> is a \<^verbatim>\<open>while\<close> loop over random draws), raises
  (\<open>Some (Inl e)\<close>) or returns a value (\<open>Some (Inr v)\<close>).
\<close>

type_synonym 'a comp = "(error + 'a) option"

definition ret :: "'a \<Rightarrow> 'a comp" where
  "ret v = Some (Inr v)"

definition raise :: "error \<Rightarrow> 'a comp" where
  "raise e = Some (Inl e)"

definition and_then :: "'a comp \<Rightarrow> ('a \<Rightarrow> 'b comp) \<Rightarrow> 'b comp" where
  "and_then m f = (case m of None \<Rightarrow> None | Some (Inl e) \<Rightarrow> Some (Inl e) | Some (Inr v) \<Rightarrow> f v)"

section \<open>The module \<^verbatim>\<open>random\<close>\<close>

text \<open>
  The generator's state is the stream of raw values it is still going to produce; every
  primitive takes the next raw value and maps it into its range, so each result the
  library can return is the image of some stream. Float arithmetic is exact (\<open>real\<close>).
\<close>

type_synonym rng = "nat \<Rightarrow> nat"

definition next_raw :: "rng \<Rightarrow> nat \<times> rng" where
  "next_raw r = (r 0, \<lambda>n. r (Suc n))"

definition randbelow :: "nat \<Rightarrow> rng \<Rightarrow> nat \<times> rng" where
  "randbelow n r = (fst (next_raw r) mod n, snd (next_raw r))"

text \<open>\<^verbatim>\<open>random.choice(seq)\<close>: \<^verbatim>\<open>seq[randbelow(len(seq))]\<close>, IndexError on an empty sequence.\<close>

definition random_choice :: "'a list \<Rightarrow> rng \<Rightarrow> error + ('a \<times> rng)" where
  "random_choice xs r =
     (if xs = [] then Inl IndexError
      else Inr (xs ! fst (randbelow (length xs) r), snd (randbelow (length xs) r)))"

text \<open>
  \<^verbatim>\<open>random.randint(a, b)\<close> for \<open>a \<le> b\<close>; each call site has constant bounds or an upper
  bound \<^verbatim>\<open>max(3, ...)\<close> over the lower bound 1.
\<close>

definition random_randint :: "int \<Rightarrow> int \<Rightarrow> rng \<Rightarrow> int \<times> rng" where
  "random_randint a b r =
     (a + int (fst (randbelow (nat (b - a + 1)) r)), snd (randbelow (nat (b - a + 1)) r))"

text \<open>\<^verbatim>\<open>random.random()\<close>: a 53-bit integer over \<open>2 ^ 53\<close>, in \<open>[0, 1)\<close>.\<close>

definition random_random :: "rng \<Rightarrow> real \<times> rng" where
  "random_random r = (real (fst (next_raw r) mod 2 ^ 53) / 2 ^ 53, snd (next_raw r))"

text \<open>\<^verbatim>\<open>random.uniform(a, b)\<close>: \<^verbatim>\<open>a + (b - a) * random()\<close>.\<close>

definition random_uniform :: "real \<Rightarrow> real \<Rightarrow> rng \<Rightarrow> real \<times> rng" where
  "random_uniform a b r = (a + (b - a) * fst (random_random r), snd (random_random r))"

text \<open>
  \<^verbatim>\<open>random.shuffle(x)\<close>:
  \<^verbatim>\<open>for i in reversed(range(1, len(x))): j = randbelow(i + 1); x[i], x[j] = x[j], x[i]\<close>.
  \<open>shuffle_from n\<close> runs the iterations \<open>i = n, n - 1, ..., 1\<close>.
\<close>

fun shuffle_from :: "nat \<Rightarrow> 'a list \<Rightarrow> rng \<Rightarrow> 'a list \<times> rng" where
  "shuffle_from 0 xs r = (xs, r)"
| "shuffle_from (Suc i) xs r =
     (let j = fst (randbelow (Suc i + 1) r)
      in shuffle_from i (xs[Suc i := xs ! j, j := xs ! Suc i]) (snd (randbelow (Suc i + 1) r)))"

definition random_shuffle :: "'a list \<Rightarrow> rng \<Rightarrow> 'a list \<times> rng" where
  "random_shuffle xs r = shuffle_from (length xs - 1) xs r"

section \<open>Settings and utilities\<close>

definition WIDTH :: int where "WIDTH = 900"
definition HEIGHT :: int where "HEIGHT = 650"
definition TARGET_CORRECT :: int where "TARGET_CORRECT = 20"
definition FALL_SPEED_MIN :: real where "FALL_SPEED_MIN = 60"
definition FALL_SPEED_MAX :: real where "FALL_SPEED_MAX = 140"

definition clamp :: "int \<Rightarrow> int \<Rightarrow> int \<Rightarrow> int" where
  "clamp v a b = max a (min b v)"

text \<open>\<^verbatim>\<open>list(range(a, b))\<close> and \<^verbatim>\<open>int(v)\<close> of a float (truncation towards zero).\<close>

definition py_range :: "int \<Rightarrow> int \<Rightarrow> int list" where
  "py_range a b = [a..b - 1]"

definition py_int :: "real \<Rightarrow> int" where
  "py_int v = (if 0 \<le> v then \<lfloor>v\<rfloor> else \<lceil>v\<rceil>)"

section \<open>QuestionGenerator\<close>

record question_generator =
  qg_difficulty :: int
  divisors :: "int list"
  max_dividend :: int

definition set_difficulty :: "int \<Rightarrow> question_generator \<Rightarrow> question_generator" where
  "set_difficulty d q =
     (if d = 0 then q\<lparr>qg_difficulty := d, divisors := py_range 1 6, max_dividend := 20\<rparr>
      else if d = 1 then q\<lparr>qg_difficulty := d, divisors := py_range 6 10, max_dividend := 60\<rparr>
      else q\<lparr>qg_difficulty := d, divisors := py_range 1 10, max_dividend := 81\<rparr>)"

definition QuestionGenerator :: "int \<Rightarrow> question_generator" where
  "QuestionGenerator d =
     set_difficulty d \<lparr>qg_difficulty = 0, divisors = [], max_dividend = 0\<rparr>"

text \<open>
  The \<^verbatim>\<open>for _ in range(200)\<close> loop of \<^verbatim>\<open>next_question\<close>, with the number of
  iterations left: \<open>Some\<close> is the \<^verbatim>\<open>return\<close> inside the loop, \<open>None\<close> is the loop
  running out.
\<close>

fun retry_loop :: "nat \<Rightarrow> int \<Rightarrow> int \<Rightarrow> rng \<Rightarrow> (int \<times> int \<times> int) option \<times> rng" where
  "retry_loop 0 divisor maxd r = (None, r)"
| "retry_loop (Suc n) divisor maxd r =
     (let quot = fst (random_randint 1 12 r);
          r' = snd (random_randint 1 12 r);
          dividend = divisor * quot
      in if 1 \<le> dividend \<and> dividend \<le> maxd then (Some (dividend, divisor, quot), r')
         else retry_loop n divisor maxd r')"

definition next_question :: "question_generator \<Rightarrow> rng \<Rightarrow> error + ((int \<times> int \<times> int) \<times> rng)" where
  "next_question q r =
     (case random_choice (divisors q) r of
        Inl e \<Rightarrow> Inl e
      | Inr (divisor, r1) \<Rightarrow>
          (case retry_loop 200 divisor (max_dividend q) r1 of
             (Some t, r2) \<Rightarrow> Inr (t, r2)
           | (None, r2) \<Rightarrow> Inr ((divisor * 1, divisor, 1), r2)))"

section \<open>ExplosionParticle and Meteor\<close>

record particle =
  p_x :: real
  p_y :: real
  p_vx :: real
  p_vy :: real
  p_life :: real
  p_age :: real
  p_size :: real

text \<open>The constructor draws the angle, the speed, the life and the size, in this order.\<close>

definition ExplosionParticle :: "real \<times> real \<Rightarrow> rng \<Rightarrow> particle \<times> rng" where
  "ExplosionParticle pos r =
     (let (u, r1) = random_random r;
          ang = u * (2 * pi);
          (speed, r2) = random_uniform 80 260 r1;
          (life, r3) = random_uniform (1 / 2) 1 r2;
          (size0, r4) = random_uniform 2 6 r3
      in (\<lparr>p_x = fst pos, p_y = snd pos, p_vx = cos ang * speed, p_vy = sin ang * speed,
           p_life = life, p_age = 0, p_size = size0\<rparr>, r4))"

definition particle_update :: "real \<Rightarrow> particle \<Rightarrow> particle" where
  "particle_update dt p =
     p\<lparr>p_age := p_age p + dt, p_x := p_x p + p_vx p * dt, p_y := p_y p + p_vy p * dt\<rparr>"

text \<open>
  A meteor. The field \<^verbatim>\<open>text\<close> holds \<^verbatim>\<open>str(a)\<close> of an integer answer and is read back
  only by \<^verbatim>\<open>int(meteor.text)\<close>; \<open>m_text\<close> is that integer. The field \<^verbatim>\<open>rect\<close> is the
  sprite's rectangle centred at \<open>(x, y)\<close>; its only reader is the collision test, which is
  a parameter of \<open>update\<close> below.
\<close>

record meteor =
  m_x :: int
  m_y :: real
  m_text :: int
  m_speed :: real
  m_hit :: bool

definition Meteor :: "int \<Rightarrow> int \<Rightarrow> int \<Rightarrow> real \<Rightarrow> meteor" where
  "Meteor x y a speed = \<lparr>m_x = x, m_y = real_of_int y, m_text = a, m_speed = speed, m_hit = False\<rparr>"

definition meteor_update :: "real \<Rightarrow> meteor \<Rightarrow> meteor" where
  "meteor_update dt m = m\<lparr>m_y := m_y m + m_speed m * dt\<rparr>"

section \<open>Game\<close>

datatype gstate = Menu | Playing | Level_clear

datatype tag = Tag_start int | Tag_next | Tag_retry | Tag_menu

type_synonym rect = "int \<times> int \<times> int \<times> int"

text \<open>\<open>buttons\<close> is the attribute \<^verbatim>\<open>_buttons\<close>, which exists only once \<^verbatim>\<open>draw_buttons\<close> has run.\<close>

record game =
  state :: gstate
  difficulty :: int
  qgen :: question_generator
  correct_count :: int
  total_attempts :: int
  current_question :: "(int \<times> int \<times> int) option"
  meteors :: "meteor list"
  ship_x :: int
  ship_y :: int
  beam :: "(real \<times> real) option"
  beam_speed :: real
  spawn_timer :: int
  question_in_progress :: bool
  particles :: "particle list"
  explosions :: "particle list"
  buttons :: "(rect \<times> tag) list option"

text \<open>
  The state of the process: the \<^verbatim>\<open>game\<close> object, the random generator, the interval of
  the timer of \<^verbatim>\<open>USEREVENT+1\<close> set by \<^verbatim>\<open>pygame.time.set_timer\<close> (\<open>None\<close> when it is
  off) and the flag \<^verbatim>\<open>running\<close> of the main loop.
\<close>

record world =
  game :: game
  rng :: rng
  timer :: "nat option"
  running :: bool

text \<open>
  The \<^verbatim>\<open>while len(answers) < 4\<close> loop of \<^verbatim>\<open>make_new_question\<close>. It ends only when the
  draws bring three new candidates, so it is a partial function.
\<close>

partial_function (option) answers_loop :: "int \<Rightarrow> int list \<Rightarrow> rng \<Rightarrow> (int list \<times> rng) comp" where
  "answers_loop quot answers r =
     (if length answers < 4 then
        (case random_choice [-3, -2, -1, 1, 2, 3, 4] r of
           Inl e \<Rightarrow> Some (Inl e)
         | Inr (off, r1) \<Rightarrow>
             (let c0 = quot + off;
                  candidate = (if c0 < 1 then fst (random_randint 1 (max 3 (quot + 3)) r1) else c0);
                  r2 = (if c0 < 1 then snd (random_randint 1 (max 3 (quot + 3)) r1) else r1)
              in if candidate \<notin> set answers then answers_loop quot (answers @ [candidate]) r2
                 else answers_loop quot answers r2))
      else Some (Inr (answers, r)))"

text \<open>The \<^verbatim>\<open>for i, a in enumerate(answers)\<close> loop: one meteor per lane, left to right.\<close>

fun place_meteors :: "nat \<Rightarrow> int list \<Rightarrow> meteor list \<Rightarrow> rng \<Rightarrow> meteor list \<times> rng" where
  "place_meteors i [] ms r = (ms, r)"
| "place_meteors i (a # as) ms r =
     (let margin = (70 :: int);
          lane_w = real_of_int (WIDTH - margin * 2) / 4;
          (u, r1) = random_uniform (- 20) 20 r;
          x = py_int (real_of_int margin + lane_w / 2 + real i * lane_w + u);
          (y, r2) = random_randint (- 200) (- 60) r1;
          (speed, r3) = random_uniform FALL_SPEED_MIN FALL_SPEED_MAX r2
      in place_meteors (Suc i) as (ms @ [Meteor x y a speed]) r3)"

definition make_new_question :: "world \<Rightarrow> world comp" where
  "make_new_question w =
     (case next_question (qgen (game w)) (rng w) of
        Inl e \<Rightarrow> raise e
      | Inr ((dividend, divisor, quot), r1) \<Rightarrow>
          and_then (answers_loop quot [quot] r1) (\<lambda>(answers, r2).
            let (shuffled, r3) = random_shuffle answers r2;
                (ms, r4) = place_meteors 0 shuffled [] r3
            in ret (w\<lparr>game := (game w)\<lparr>current_question := Some (dividend, divisor, quot),
                                        meteors := ms, question_in_progress := True\<rparr>,
                      rng := r4\<rparr>)))"

definition reset_play :: "world \<Rightarrow> world comp" where
  "reset_play w =
     make_new_question
       (w\<lparr>game := (game w)\<lparr>correct_count := 0, total_attempts := 0, current_question := None,
                            meteors := [], ship_x := WIDTH div 2, ship_y := HEIGHT - 80,
                            beam := None, beam_speed := 900, spawn_timer := 0,
                            question_in_progress := False\<rparr>\<rparr>)"

text \<open>
  \<^verbatim>\<open>game = Game()\<close> at the start of the main loop, with the timer off and \<^verbatim>\<open>running\<close>
  set. The fields that \<^verbatim>\<open>reset_play\<close> creates start here with the values it assigns.
\<close>

definition Game_init :: "rng \<Rightarrow> world comp" where
  "Game_init r =
     and_then
       (reset_play
          \<lparr>game = \<lparr>state = Menu, difficulty = 0, qgen = QuestionGenerator 0, correct_count = 0,
                   total_attempts = 0, current_question = None, meteors = [],
                   ship_x = WIDTH div 2, ship_y = HEIGHT - 80, beam = None, beam_speed = 900,
                   spawn_timer = 0, question_in_progress = False, particles = [],
                   explosions = [], buttons = None\<rparr>,
           rng = r, timer = None, running = True\<rparr>)
       (\<lambda>w. ret (w\<lparr>game := (game w)\<lparr>particles := [], explosions := []\<rparr>\<rparr>))"

definition fire_beam :: "world \<Rightarrow> world" where
  "fire_beam w =
     w\<lparr>game := (game w)\<lparr>beam := Some (real_of_int (ship_x (game w)),
                                        real_of_int (ship_y (game w) - 34))\<rparr>\<rparr>"

text \<open>\<^verbatim>\<open>for _ in range(n): self.particles.append(ExplosionParticle(pos))\<close>.\<close>

fun spawn_particles :: "nat \<Rightarrow> real \<times> real \<Rightarrow> particle list \<Rightarrow> rng \<Rightarrow> particle list \<times> rng" where
  "spawn_particles 0 pos ps r = (ps, r)"
| "spawn_particles (Suc n) pos ps r =
     (let (p, r') = ExplosionParticle pos r in spawn_particles n pos (ps @ [p]) r')"

definition on_meteor_hit :: "meteor \<Rightarrow> world \<Rightarrow> world comp" where
  "on_meteor_hit m w =
     (case current_question (game w) of
        None \<Rightarrow> raise TypeError
      | Some (dividend, divisor, quot) \<Rightarrow>
          (let hit_value = m_text m;
               correct = (hit_value = quot);
               g1 = (game w)\<lparr>total_attempts := total_attempts (game w) + 1\<rparr>;
               pos = (real_of_int (m_x m), m_y m);
               (g2, r') =
                 (if correct then
                    (let g = g1\<lparr>correct_count := correct_count g1 + 1\<rparr>;
                         (ps, r1) = spawn_particles 30 pos (particles g) (rng w)
                     in (g\<lparr>particles := ps\<rparr>, r1))
                  else
                    (let (ps, r1) = spawn_particles 12 pos (particles g1) (rng w)
                     in (g1\<lparr>particles := ps\<rparr>, r1)))
           in ret (w\<lparr>game := g2\<lparr>meteors := []\<rparr>, rng := r', timer := Some 450\<rparr>)))"

text \<open>
  The collision scan of \<^verbatim>\<open>update\<close>. \<open>collide m b\<close> stands for
  \<^verbatim>\<open>m.rect.colliderect(pygame.Rect(beam[0]-3, beam[1]-6, 6, 12))\<close> with the beam at \<open>b\<close>;
  the scan stops at the first meteor that collides.
\<close>

definition collision_scan :: "(meteor \<Rightarrow> real \<times> real \<Rightarrow> bool) \<Rightarrow> world \<Rightarrow> world comp" where
  "collision_scan collide w =
     (case beam (game w) of
        None \<Rightarrow> ret w
      | Some b \<Rightarrow>
          (case find (\<lambda>m. collide m b) (meteors (game w)) of
             Some m \<Rightarrow> and_then (on_meteor_hit m w) (\<lambda>w'. ret (w'\<lparr>game := (game w')\<lparr>beam := None\<rparr>\<rparr>))
           | None \<Rightarrow> ret (if snd b < - 40 then w\<lparr>game := (game w)\<lparr>beam := None\<rparr>\<rparr> else w)))"

text \<open>
  The off-screen sweep of \<^verbatim>\<open>update\<close>: a loop over a copy of the meteor list, removing
  from the list itself (\<^verbatim>\<open>list.remove\<close> raises ValueError when the element is absent).
\<close>

fun sweep :: "meteor list \<Rightarrow> world \<Rightarrow> world comp" where
  "sweep [] w = ret w"
| "sweep (m # ms) w =
     (if m_y m > real_of_int (HEIGHT + 60) then
        (if m \<in> set (meteors (game w)) then
           (let w1 = w\<lparr>game := (game w)\<lparr>meteors := remove1 m (meteors (game w))\<rparr>\<rparr>
            in if meteors (game w1) = [] then
                 and_then
                   (make_new_question
                      (w1\<lparr>game := (game w1)\<lparr>total_attempts := total_attempts (game w1) + 1\<rparr>\<rparr>))
                   (sweep ms)
               else sweep ms w1)
         else raise ValueError)
      else sweep ms w)"

definition update :: "real \<Rightarrow> (meteor \<Rightarrow> real \<times> real \<Rightarrow> bool) \<Rightarrow> world \<Rightarrow> world comp" where
  "update dt collide w =
     (let g1 = (game w)\<lparr>particles :=
                 filter (\<lambda>p. p_age p < p_life p) (map (particle_update dt) (particles (game w)))\<rparr>
      in if state g1 = Playing then
           (let g2 = g1\<lparr>beam := map_option (\<lambda>(bx, by). (bx, by - beam_speed g1 * dt)) (beam g1)\<rparr>;
                g3 = g2\<lparr>meteors := map (meteor_update dt) (meteors g2)\<rparr>
            in and_then (collision_scan collide (w\<lparr>game := g3\<rparr>)) (\<lambda>w4.
               and_then (sweep (meteors (game w4)) w4) (\<lambda>w5.
                 ret (if correct_count (game w5) \<ge> TARGET_CORRECT
                      then w5\<lparr>game := (game w5)\<lparr>state := Level_clear\<rparr>\<rparr> else w5))))
         else ret (w\<lparr>game := g1\<rparr>))"

text \<open>
  Of \<^verbatim>\<open>draw\<close>, only the effect on the game: \<^verbatim>\<open>draw_buttons\<close> stores the buttons of the
  menu and of the level-clear screen; the playing screen has none and keeps the old list.
\<close>

definition draw_buttons :: "game \<Rightarrow> game" where
  "draw_buttons g =
     g\<lparr>buttons := Some
        (if state g = Menu then
           map (\<lambda>i. ((WIDTH div 2 - 220 + i * 220, 320, 200, 48), Tag_start i)) [0, 1, 2]
         else if state g = Level_clear then
           [((WIDTH div 2 - 200, HEIGHT div 2 + 20, 160, 50), Tag_next),
            ((WIDTH div 2 - 20, HEIGHT div 2 + 20, 160, 50), Tag_retry),
            ((WIDTH div 2 + 160, HEIGHT div 2 + 20, 160, 50), Tag_menu)]
         else [])\<rparr>"

definition draw :: "world \<Rightarrow> world" where
  "draw w =
     (case state (game w) of
        Menu \<Rightarrow> w\<lparr>game := draw_buttons (game w)\<rparr>
      | Playing \<Rightarrow> w
      | Level_clear \<Rightarrow> w\<lparr>game := draw_buttons (game w)\<rparr>)"

text \<open>\<^verbatim>\<open>pygame.Rect(x, y, w, h).collidepoint(pos)\<close>: the right and bottom edges are outside.\<close>

definition collidepoint :: "rect \<Rightarrow> int \<times> int \<Rightarrow> bool" where
  "collidepoint rc pos =
     (case rc of (x, y, w, h) \<Rightarrow>
        x \<le> fst pos \<and> fst pos < x + w \<and> y \<le> snd pos \<and> snd pos < y + h)"

definition handle_click :: "int \<times> int \<Rightarrow> int \<Rightarrow> world \<Rightarrow> world comp" where
  "handle_click pos button w =
     (case state (game w) of
        Menu \<Rightarrow>
          (case find (\<lambda>i. collidepoint (WIDTH div 2 - 220 + i * 220, 320, 200, 48) pos) [0, 1, 2] of
             None \<Rightarrow> ret w
           | Some i \<Rightarrow>
               and_then
                 (reset_play (w\<lparr>game := (game w)\<lparr>difficulty := i,
                                                   qgen := set_difficulty i (qgen (game w))\<rparr>\<rparr>))
                 (\<lambda>w'. ret (w'\<lparr>game := (game w')\<lparr>state := Playing\<rparr>\<rparr>)))
      | Playing \<Rightarrow> ret (fire_beam w)
      | Level_clear \<Rightarrow>
          (case buttons (game w) of
             None \<Rightarrow> ret w
           | Some bs \<Rightarrow>
               (case find (\<lambda>(rc, tg). collidepoint rc pos) bs of
                  None \<Rightarrow> ret w
                | Some (rc, tg) \<Rightarrow>
                    (case tg of
                       Tag_next \<Rightarrow>
                         (let w1 = (if difficulty (game w) < 2
                                    then w\<lparr>game := (game w)\<lparr>difficulty := difficulty (game w) + 1,
                                           qgen := set_difficulty (difficulty (game w) + 1) (qgen (game w))\<rparr>\<rparr>
                                    else w)
                          in and_then (reset_play w1)
                               (\<lambda>w'. ret (w'\<lparr>game := (game w')\<lparr>state := Playing\<rparr>\<rparr>)))
                     | Tag_retry \<Rightarrow>
                         and_then
                           (reset_play (w\<lparr>game := (game w)\<lparr>qgen :=
                                             set_difficulty (difficulty (game w)) (qgen (game w))\<rparr>\<rparr>))
                           (\<lambda>w'. ret (w'\<lparr>game := (game w')\<lparr>state := Playing\<rparr>\<rparr>))
                     | Tag_menu \<Rightarrow> ret (w\<lparr>game := (game w)\<lparr>state := Menu\<rparr>\<rparr>)
                     | Tag_start i \<Rightarrow> ret w))))"

section \<open>The main loop\<close>

datatype key = K_ESCAPE | K_OTHER

datatype event =
    QUIT
  | MOUSEMOTION "int \<times> int"
  | MOUSEBUTTONDOWN "int \<times> int" int
  | KEYDOWN key
  | USEREVENT_1
  | OTHER_EVENT

definition handle_event :: "event \<Rightarrow> world \<Rightarrow> world comp" where
  "handle_event e w =
     (case e of
        QUIT \<Rightarrow> ret (w\<lparr>running := False\<rparr>)
      | MOUSEMOTION p \<Rightarrow>
          ret (if state (game w) = Playing
               then w\<lparr>game := (game w)\<lparr>ship_x := clamp (fst p) 40 (WIDTH - 40)\<rparr>\<rparr> else w)
      | MOUSEBUTTONDOWN p b \<Rightarrow> (if b = 1 then handle_click p b w else ret w)
      | KEYDOWN k \<Rightarrow>
          (if k = K_ESCAPE then
             (if state (game w) = Playing then ret (w\<lparr>game := (game w)\<lparr>state := Menu\<rparr>\<rparr>)
              else ret (w\<lparr>running := False\<rparr>))
           else ret w)
      | USEREVENT_1 \<Rightarrow> make_new_question (w\<lparr>timer := None\<rparr>)
      | OTHER_EVENT \<Rightarrow> ret w)"

fun handle_events :: "event list \<Rightarrow> world \<Rightarrow> world comp" where
  "handle_events [] w = ret w"
| "handle_events (e # es) w = and_then (handle_event e w) (handle_events es)"

text \<open>One iteration of \<^verbatim>\<open>while running\<close>: the events of the frame, the update, the drawing.\<close>

definition frame :: "real \<Rightarrow> event list \<Rightarrow> (meteor \<Rightarrow> real \<times> real \<Rightarrow> bool) \<Rightarrow> world \<Rightarrow> world comp" where
  "frame dt es collide w =
     and_then (handle_events es w) (\<lambda>w1.
       and_then (update dt collide w1) (\<lambda>w2. ret (draw w2)))"

text \<open>
  The states of the process, observed after the construction of the game and after each
  event handler, update and drawing; the runs of the main loop are among these sequences.
\<close>

inductive reachable :: "world \<Rightarrow> bool" where
  reach_init: "Game_init r = Some (Inr w) \<Longrightarrow> reachable w"
| reach_event: "reachable w \<Longrightarrow> handle_event e w = Some (Inr w') \<Longrightarrow> reachable w'"
| reach_update: "reachable w \<Longrightarrow> update dt collide w = Some (Inr w') \<Longrightarrow> reachable w'"
| reach_draw: "reachable w \<Longrightarrow> reachable (draw w)"

section \<open>The invariant of the distractor loop\<close>

definition answers_ok :: "int \<Rightarrow> int list \<Rightarrow> bool" where
  "answers_ok quot answers \<longleftrightarrow>
     distinct answers \<and> quot \<in> set answers \<and> (\<forall>a\<in>set answers. 1 \<le> a) \<and> length answers \<le> 4"

section \<open>Predicates on a frame\<close>

text \<open>
  Whether the collision scan of \<open>update dt collide\<close> finds a hit: the beam exists and,
  once the beam and the meteors have moved, some meteor collides with it.
\<close>

definition hit_in_frame :: "real \<Rightarrow> (meteor \<Rightarrow> real \<times> real \<Rightarrow> bool) \<Rightarrow> world \<Rightarrow> bool" where
  "hit_in_frame dt collide w \<longleftrightarrow>
     (case beam (game w) of
        None \<Rightarrow> False
      | Some b \<Rightarrow>
          \<exists>m\<in>set (meteors (game w)).
            collide (meteor_update dt m) (fst b, snd b - beam_speed (game w) * dt))"

text \<open>
  The first part of \<open>update dt\<close> in the playing state: the particles aged and filtered,
  the beam and the meteors moved.
\<close>

definition moved :: "real \<Rightarrow> world \<Rightarrow> world" where
  "moved dt w =
     w\<lparr>game := (game w)\<lparr>
          particles := filter (\<lambda>p. p_age p < p_life p) (map (particle_update dt) (particles (game w))),
          beam := map_option (\<lambda>(bx, by). (bx, by - beam_speed (game w) * dt)) (beam (game w)),
          meteors := map (meteor_update dt) (meteors (game w))\<rparr>\<rparr>"

section \<open>The draws of \<open>next_question\<close>\<close>

text \<open>
  On the stream \<open>r\<close>, \<^verbatim>\<open>random.choice\<close> takes the raw value \<open>r 0\<close> and iteration \<open>k\<close> of the
  retry loop (counted from 0) takes \<open>r (Suc k)\<close>: the divisor drawn, the quotient sampled
  in iteration \<open>k\<close>, and the loop's test \<^verbatim>\<open>1 <= dividend <= self.max_dividend\<close> on it.
\<close>

definition drawn_divisor :: "question_generator \<Rightarrow> rng \<Rightarrow> int" where
  "drawn_divisor q r = divisors q ! (r 0 mod length (divisors q))"

definition sampled_quot :: "rng \<Rightarrow> nat \<Rightarrow> int" where
  "sampled_quot r k = 1 + int (r (Suc k) mod 12)"

definition accepted :: "question_generator \<Rightarrow> rng \<Rightarrow> nat \<Rightarrow> bool" where
  "accepted q r k \<longleftrightarrow>
     1 \<le> drawn_divisor q r * sampled_quot r k \<and>
     drawn_divisor q r * sampled_quot r k \<le> max_dividend q"

section \<open>Concrete inputs\<close>

text \<open>Random streams: one that always gives 11, and one that gives 4 first.\<close>

definition all_eleven :: rng where
  "all_eleven n = 11"

definition four_then_eleven :: rng where
  "four_then_eleven n = (if n = 0 then 4 else 11)"

text \<open>The stream that gives the values of a list and then zeros.\<close>

definition stream_of :: "nat list \<Rightarrow> rng" where
  "stream_of xs n = (if n < length xs then xs ! n else 0)"

text \<open>
  The start of the program with the draws 2, 3, 3, 4, 5 and then zeros: the divisor is 3,
  the quotient 4, the distractors 5, 6, 7, and the shuffle puts the answer 4 last.
\<close>

definition r_init :: rng where
  "r_init = stream_of [2, 3, 3, 4, 5]"

definition g_init :: game where
  "g_init =
     \<lparr>state = Menu, difficulty = 0,
      qgen = \<lparr>qg_difficulty = 0, divisors = [1, 2, 3, 4, 5], max_dividend = 20\<rparr>,
      correct_count = 0, total_attempts = 0, current_question = Some (12, 3, 4),
      meteors = [Meteor 145 (- 200) 5 60, Meteor 335 (- 200) 6 60,
                 Meteor 525 (- 200) 7 60, Meteor 715 (- 200) 4 60],
      ship_x = 450, ship_y = 570, beam = None, beam_speed = 900, spawn_timer = 0,
      question_in_progress = True, particles = [], explosions = [], buttons = None\<rparr>"

definition w_init :: world where
  "w_init = \<lparr>game = g_init, rng = stream_of [], timer = None, running = True\<rparr>"

text \<open>
  A collision test at exact coordinates: the sprite's rectangle of 76 by 76 centred at the
  meteor against the beam's rectangle of 6 by 12.
\<close>

definition overlap :: "meteor \<Rightarrow> real \<times> real \<Rightarrow> bool" where
  "overlap m b \<longleftrightarrow> \<bar>real_of_int (m_x m) - fst b\<bar> < 41 \<and> \<bar>m_y m - snd b\<bar> < 44"

text \<open>
  A game in play on the question 12 / 3: the meteor of the answer 4 is at y = 500 and the
  beam right under it, at y = 498.
\<close>

definition g_play :: game where
  "g_play =
     g_init\<lparr>state := Playing,
            meteors := [Meteor 145 100 5 60, Meteor 335 100 6 60,
                        Meteor 525 100 7 60, Meteor 715 500 4 60],
            ship_x := 715, beam := Some (715, 498)\<rparr>"

definition w_play :: world where
  "w_play = \<lparr>game = g_play, rng = stream_of [], timer = None, running = True\<rparr>"

text \<open>
  The level-clear screen at difficulty 1, as drawn, and the game that a click on its
  first button starts (difficulty 2, with the draws of \<open>r_init\<close>).
\<close>

definition g_clear :: game where
  "g_clear =
     draw_buttons
       (g_init\<lparr>state := Level_clear, difficulty := 1,
               qgen := \<lparr>qg_difficulty = 1, divisors = [6, 7, 8, 9], max_dividend = 60\<rparr>,
               correct_count := 20, total_attempts := 27, current_question := Some (42, 6, 7),
               meteors := [], beam := Some (300, 120)\<rparr>)"

definition w_clear :: world where
  "w_clear = \<lparr>game = g_clear, rng = r_init, timer = None, running = True\<rparr>"

definition g_next :: game where
  "g_next =
     g_init\<lparr>state := Playing, difficulty := 2,
            qgen := \<lparr>qg_difficulty = 2, divisors = [1, 2, 3, 4, 5, 6, 7, 8, 9], max_dividend = 81\<rparr>,
            buttons := buttons g_clear\<rparr>"

definition w_next :: world where
  "w_next = \<lparr>game = g_next, rng = stream_of [], timer = None, running = True\<rparr>"

text \<open>
  The level-clear screen at difficulty 2, and the game that a click on the second button
  of the screen at difficulty 1 starts (difficulty 1 again).
\<close>

definition w_clear2 :: world where
  "w_clear2 =
     \<lparr>game = g_next\<lparr>state := Level_clear, correct_count := 20, total_attempts := 31\<rparr>,
      rng = r_init, timer = None, running = True\<rparr>"

definition g_retry :: game where
  "g_retry =
     g_init\<lparr>state := Playing, difficulty := 1,
            qgen := \<lparr>qg_difficulty = 1, divisors = [6, 7, 8, 9], max_dividend = 60\<rparr>,
            current_question := Some (32, 8, 4), buttons := buttons g_clear\<rparr>"

definition w_retry :: world where
  "w_retry = \<lparr>game = g_retry, rng = stream_of [], timer = None, running = True\<rparr>"

text \<open>
  A game in play with no beam and the four meteors about to leave the screen: after a
  frame of 1/60 s they are at 711, 712, 714 and 711, below the boundary 710.
\<close>

definition g_fall :: game where
  "g_fall =
     g_init\<lparr>state := Playing, correct_count := 2, total_attempts := 3,
            meteors := [Meteor 145 709 5 120, Meteor 335 710 6 120,
                        Meteor 525 712 7 120, Meteor 715 709 4 120]\<rparr>"

definition w_fall :: world where
  "w_fall = \<lparr>game = g_fall, rng = r_init, timer = None, running = True\<rparr>"

definition w_fallen :: world where
  "w_fallen =
     \<lparr>game = g_init\<lparr>state := Playing, correct_count := 2, total_attempts := 4\<rparr>,
      rng = stream_of [], timer = None, running = True\<rparr>"

text \<open>
  The game \<open>g_play\<close> with the counters \<open>n\<close> and \<open>k\<close> and the random stream \<open>r\<close>, and the
  world after the frame of 1/60 s in which the beam (moved up to 483) hits the meteor of
  the answer 4 (moved down to 501).
\<close>

definition w_shot :: "int \<Rightarrow> int \<Rightarrow> rng \<Rightarrow> world" where
  "w_shot n k r =
     \<lparr>game = g_play\<lparr>correct_count := n, total_attempts := k\<rparr>,
      rng = r, timer = None, running = True\<rparr>"

definition w_hit :: "int \<Rightarrow> int \<Rightarrow> rng \<Rightarrow> world" where
  "w_hit n k r =
     \<lparr>game = g_play\<lparr>correct_count := n + 1, total_attempts := k + 1, meteors := [],
                    beam := None, particles := fst (spawn_particles 30 (715, 501) [] r),
                    state := (if TARGET_CORRECT \<le> n + 1 then Level_clear else Playing)\<rparr>,
      rng = snd (spawn_particles 30 (715, 501) [] r), timer = Some 450, running = True\<rparr>"

text \<open>
  A stream whose first 120 values (the draws of 30 particles) are zeros; the world after
  the hit and then escape; and that world after the timer event.
\<close>

definition r_late :: rng where
  "r_late = stream_of (replicate 120 0 @ [1, 3, 3, 4, 5])"

definition w_hit_menu :: world where
  "w_hit_menu = (w_hit 0 0 r_late)\<lparr>game := (game (w_hit 0 0 r_late))\<lparr>state := Menu\<rparr>\<rparr>"

definition w_late :: world where
  "w_late =
     \<lparr>game = (game w_hit_menu)\<lparr>current_question := Some (8, 2, 4),
                 meteors := [Meteor 145 (- 200) 5 60, Meteor 335 (- 200) 6 60,
                             Meteor 525 (- 200) 7 60, Meteor 715 (- 200) 4 60],
                 question_in_progress := True\<rparr>,
      rng = stream_of [], timer = None, running = True\<rparr>"

section \<open>Facts about the random primitives\<close>

lemma randbelow_less: "0 < n \<Longrightarrow> fst (randbelow n r) < n"
  by (simp add: randbelow_def)

lemma random_randint_range:
  "a \<le> b \<Longrightarrow> a \<le> fst (random_randint a b r) \<and> fst (random_randint a b r) \<le> b"
  using randbelow_less [of "nat (b - a + 1)" r] by (simp add: random_randint_def)

lemma random_choice_member: "random_choice xs r = Inr (x, r') \<Longrightarrow> x \<in> set xs"
  by (auto simp: random_choice_def randbelow_def split: if_splits)

lemma random_choice_nonempty:
  "xs \<noteq> [] \<Longrightarrow> \<exists>x r'. random_choice xs r = Inr (x, r') \<and> x \<in> set xs"
  by (simp add: random_choice_def randbelow_def)

lemma set_py_range: "set (py_range a b) = {a..b - 1}"
  by (simp add: py_range_def)

section \<open>The question generator\<close>

lemma retry_loop_Some:
  "retry_loop n dv mx r = (Some (a, b, c), r') \<Longrightarrow>
     a = b * c \<and> b = dv \<and> 1 \<le> a \<and> a \<le> mx \<and> 1 \<le> c \<and> c \<le> 12"
proof (induction n arbitrary: r)
  case 0
  then show ?case by simp
next
  case (Suc n)
  show ?case
  proof (cases "1 \<le> dv * fst (random_randint 1 12 r) \<and> dv * fst (random_randint 1 12 r) \<le> mx")
    case True
    with Suc.prems random_randint_range [of 1 12 r] show ?thesis
      by (auto simp: Let_def)
  next
    case False
    with Suc.prems have "retry_loop n dv mx (snd (random_randint 1 12 r)) = (Some (a, b, c), r')"
      by (auto simp: Let_def)
    then show ?thesis by (rule Suc.IH)
  qed
qed

text \<open>
  C1. For each tier 0, 1, 2 (whatever the generator held before \<open>set_difficulty\<close>) and each
  state of the random generator, \<open>next_question\<close> returns a triple with
  \<open>dividend = divisor * quot\<close>, the divisor in the tier's table (1..5, 6..9, 1..9) and the
  dividend at most the tier's bound (20, 60, 81). The triple of the fallback after the
  loop is among the results covered.
\<close>

theorem next_question_in_tier:
  assumes "d \<in> {0, 1, 2}"
  shows "\<exists>dividend divisor quot r'.
           next_question (set_difficulty d q) r = Inr ((dividend, divisor, quot), r') \<and>
           dividend = divisor * quot \<and>
           divisor \<in> (if d = 0 then {1..5} else if d = 1 then {6..9} else {1..9}) \<and>
           dividend \<le> (if d = 0 then 20 else if d = 1 then 60 else 81)"
proof -
  let ?q = "set_difficulty d q"
  have ne: "divisors ?q \<noteq> []"
    by (simp add: set_difficulty_def py_range_def upto.simps)
  have ds: "set (divisors ?q) = (if d = 0 then {1..5} else if d = 1 then {6..9} else {1..9})"
    by (simp add: set_difficulty_def set_py_range)
  have mx: "max_dividend ?q = (if d = 0 then 20 else if d = 1 then 60 else 81)"
    by (simp add: set_difficulty_def)
  from random_choice_nonempty [OF ne] obtain dv r1
    where ch: "random_choice (divisors ?q) r = Inr (dv, r1)" and dv: "dv \<in> set (divisors ?q)"
    by blast
  obtain res r2 where rl: "retry_loop 200 dv (max_dividend ?q) r1 = (res, r2)"
    by (cases "retry_loop 200 dv (max_dividend ?q) r1")
  show ?thesis
  proof (cases res)
    case None
    with ch rl have "next_question ?q r = Inr ((dv * 1, dv, 1), r2)"
      by (simp add: next_question_def)
    moreover from dv ds assms have "dv \<le> (if d = 0 then 20 else if d = 1 then 60 else 81)"
      by (auto split: if_splits)
    ultimately show ?thesis using dv ds by simp
  next
    case (Some t)
    obtain a b c where t: "t = (a, b, c)" by (cases t)
    from rl Some t have "a = b * c \<and> b = dv \<and> 1 \<le> a \<and> a \<le> max_dividend ?q \<and> 1 \<le> c \<and> c \<le> 12"
      using retry_loop_Some by blast
    moreover from ch rl Some t have "next_question ?q r = Inr ((a, b, c), r2)"
      by (simp add: next_question_def)
    ultimately show ?thesis using dv ds mx by auto
  qed
qed

theorem next_question_in_tier_witness:
  "(1 :: int) \<in> {0, 1, 2} \<and>
   (\<exists>dividend divisor quot r'.
      next_question (set_difficulty 1 (QuestionGenerator 0)) (\<lambda>n. 5 * n + 2)
        = Inr ((dividend, divisor, quot), r') \<and>
      dividend = divisor * quot \<and> divisor \<in> {6..9} \<and> dividend \<le> 60)"
  using next_question_in_tier [of 1 "QuestionGenerator 0" "\<lambda>n. 5 * n + 2"] by simp

lemma random_randint_1_12:
  "random_randint 1 12 r = (1 + int (r 0 mod 12), \<lambda>n. r (Suc n))"
  by (simp add: random_randint_def randbelow_def next_raw_def)

lemma retry_loop_None_iff:
  "fst (retry_loop n dv mx r) = None \<longleftrightarrow>
     (\<forall>k<n. \<not> (1 \<le> dv * (1 + int (r k mod 12)) \<and> dv * (1 + int (r k mod 12)) \<le> mx))"
proof (induction n arbitrary: r)
  case 0
  show ?case by simp
next
  case (Suc n)
  show ?case
    by (simp add: random_randint_1_12 Let_def Suc.IH All_less_Suc2)
qed

lemma retry_loop_first:
  assumes "k < n"
    and "1 \<le> dv * (1 + int (r k mod 12)) \<and> dv * (1 + int (r k mod 12)) \<le> mx"
    and "\<forall>j<k. \<not> (1 \<le> dv * (1 + int (r j mod 12)) \<and> dv * (1 + int (r j mod 12)) \<le> mx)"
  shows "retry_loop n dv mx r
     = (Some (dv * (1 + int (r k mod 12)), dv, 1 + int (r k mod 12)), \<lambda>i. r (i + Suc k))"
  using assms
proof (induction n arbitrary: r k)
  case 0
  then show ?case by simp
next
  case (Suc n)
  show ?case
  proof (cases k)
    case 0
    with Suc.prems(2) show ?thesis
      by (simp add: random_randint_1_12 Let_def)
  next
    case (Suc k')
    with Suc.prems(3) have rej: "\<not> (1 \<le> dv * (1 + int (r 0 mod 12)) \<and> dv * (1 + int (r 0 mod 12)) \<le> mx)"
      by blast
    have "retry_loop n dv mx (\<lambda>n. r (Suc n))
       = (Some (dv * (1 + int (r (Suc k') mod 12)), dv, 1 + int (r (Suc k') mod 12)),
          \<lambda>i. r (Suc (i + Suc k')))"
      using Suc.prems Suc by (intro Suc.IH [of k' "\<lambda>n. r (Suc n)"]) auto
    moreover from rej have "retry_loop (Suc n) dv mx r = retry_loop n dv mx (\<lambda>n. r (Suc n))"
      by (auto simp: random_randint_1_12 Let_def)
    ultimately show ?thesis using Suc by simp
  qed
qed

lemma retry_loop_exhaust:
  assumes "\<forall>j<n. \<not> (1 \<le> dv * (1 + int (r j mod 12)) \<and> dv * (1 + int (r j mod 12)) \<le> mx)"
  shows "retry_loop n dv mx r = (None, \<lambda>i. r (i + n))"
  using assms
proof (induction n arbitrary: r)
  case 0
  show ?case by simp
next
  case (Suc n)
  from Suc.prems have rej: "\<not> (1 \<le> dv * (1 + int (r 0 mod 12)) \<and> dv * (1 + int (r 0 mod 12)) \<le> mx)"
    by blast
  have "retry_loop n dv mx (\<lambda>n. r (Suc n)) = (None, \<lambda>i. r (Suc (i + n)))"
    using Suc.prems by (intro Suc.IH [of "\<lambda>n. r (Suc n)"]) auto
  moreover from rej have "retry_loop (Suc n) dv mx r = retry_loop n dv mx (\<lambda>n. r (Suc n))"
    by (auto simp: random_randint_1_12 Let_def)
  ultimately show ?case by simp
qed

lemma random_choice_drawn:
  "divisors q \<noteq> [] \<Longrightarrow>
     random_choice (divisors q) r = Inr (drawn_divisor q r, \<lambda>n. r (Suc n))"
  by (simp add: random_choice_def randbelow_def next_raw_def drawn_divisor_def)

text \<open>
  C8 (as amended). For a tier 0, 1, 2: \<open>next_question\<close> returns the first of its 200
  sampled quotients whose dividend is within the tier's bound, with the divisor drawn;
  when each of the 200 samples gives a dividend over the bound it returns the fallback
  (divisor, divisor, 1), and the loop runs out exactly then. The divisor drawn is in the
  tier's table and the quotient 1 of the fallback is itself within the bound.
\<close>

theorem fallback_iff_all_rejected:
  assumes "d \<in> {0, 1, 2}"
  shows "(k < 200 \<and> accepted (set_difficulty d q) r k \<and>
          (\<forall>j<k. \<not> accepted (set_difficulty d q) r j) \<longrightarrow>
            next_question (set_difficulty d q) r =
              Inr ((drawn_divisor (set_difficulty d q) r * sampled_quot r k,
                    drawn_divisor (set_difficulty d q) r, sampled_quot r k),
                   \<lambda>n. r (n + k + 2))) \<and>
         ((\<forall>k<200. \<not> accepted (set_difficulty d q) r k) \<longrightarrow>
            next_question (set_difficulty d q) r =
              Inr ((drawn_divisor (set_difficulty d q) r * 1,
                    drawn_divisor (set_difficulty d q) r, 1),
                   \<lambda>n. r (n + 201))) \<and>
         (fst (retry_loop 200 (drawn_divisor (set_difficulty d q) r)
                 (max_dividend (set_difficulty d q)) (\<lambda>n. r (Suc n))) = None \<longleftrightarrow>
            (\<forall>k<200. \<not> accepted (set_difficulty d q) r k)) \<and>
         (accepted (set_difficulty d q) r k \<longleftrightarrow>
            drawn_divisor (set_difficulty d q) r * sampled_quot r k
              \<le> max_dividend (set_difficulty d q)) \<and>
         drawn_divisor (set_difficulty d q) r \<in> set (divisors (set_difficulty d q)) \<and>
         1 \<le> drawn_divisor (set_difficulty d q) r * 1 \<and>
         drawn_divisor (set_difficulty d q) r * 1 \<le> max_dividend (set_difficulty d q)"
proof -
  let ?Q = "set_difficulty d q"
  let ?dv = "drawn_divisor ?Q r"
  let ?mx = "max_dividend ?Q"
  let ?r = "\<lambda>n. r (Suc n)"
  have ne: "divisors ?Q \<noteq> []"
    by (simp add: set_difficulty_def py_range_def upto.simps)
  note ch = random_choice_drawn [OF ne, of r]
  have mem: "?dv \<in> set (divisors ?Q)"
    using ne by (simp add: drawn_divisor_def)
  with assms have dv: "1 \<le> ?dv" "?dv \<le> ?mx"
    by (auto simp: set_difficulty_def set_py_range split: if_splits)
  have acc: "accepted ?Q r j \<longleftrightarrow>
      1 \<le> ?dv * (1 + int (?r j mod 12)) \<and> ?dv * (1 + int (?r j mod 12)) \<le> ?mx" for j
    by (simp add: accepted_def sampled_quot_def)
  have pos: "1 \<le> ?dv * sampled_quot r j" for j
  proof -
    have "1 * 1 \<le> ?dv * sampled_quot r j"
      using dv(1) by (intro mult_mono) (auto simp: sampled_quot_def)
    then show ?thesis by simp
  qed
  have first: "next_question ?Q r =
      Inr ((?dv * sampled_quot r k, ?dv, sampled_quot r k), \<lambda>n. r (n + k + 2))"
    if "k < 200" and "accepted ?Q r k" and "\<forall>j<k. \<not> accepted ?Q r j"
  proof -
    have "retry_loop 200 ?dv ?mx ?r
       = (Some (?dv * (1 + int (?r k mod 12)), ?dv, 1 + int (?r k mod 12)), \<lambda>i. ?r (i + Suc k))"
      using that by (intro retry_loop_first) (simp_all add: acc)
    then show ?thesis
      by (simp add: next_question_def ch sampled_quot_def ac_simps)
  qed
  have none: "next_question ?Q r = Inr ((?dv * 1, ?dv, 1), \<lambda>n. r (n + 201))"
    if "\<forall>k<200. \<not> accepted ?Q r k"
  proof -
    have "retry_loop 200 ?dv ?mx ?r = (None, \<lambda>i. ?r (i + 200))"
      using that by (intro retry_loop_exhaust) (simp add: acc)
    then show ?thesis
      by (simp add: next_question_def ch ac_simps)
  qed
  have iff: "fst (retry_loop 200 ?dv ?mx ?r) = None \<longleftrightarrow> (\<forall>k<200. \<not> accepted ?Q r k)"
    by (simp only: retry_loop_None_iff acc)
  have acc': "accepted ?Q r k \<longleftrightarrow> ?dv * sampled_quot r k \<le> ?mx"
    using pos [of k] by (simp add: accepted_def)
  show ?thesis
  proof (intro conjI impI, goal_cases)
    case 1
    then show ?case using first by blast
  next
    case 2
    then show ?case by (rule none)
  next
    case 3
    show ?case by (rule iff)
  next
    case 4
    show ?case by (rule acc')
  next
    case 5
    show ?case by (rule mem)
  next
    case 6
    show ?case using dv(1) by simp
  next
    case 7
    show ?case using dv(2) by simp
  qed
qed


theorem fallback_iff_all_rejected_witness:
  "(1 :: int) \<in> {0, 1, 2} \<and>
   drawn_divisor (set_difficulty 1 (QuestionGenerator 0)) (stream_of [0, 11, 10, 4]) = 6 \<and>
   max_dividend (set_difficulty 1 (QuestionGenerator 0)) = 60 \<and>
   sampled_quot (stream_of [0, 11, 10, 4]) 0 = 12 \<and>
   sampled_quot (stream_of [0, 11, 10, 4]) 1 = 11 \<and>
   sampled_quot (stream_of [0, 11, 10, 4]) 2 = 5 \<and>
   \<not> accepted (set_difficulty 1 (QuestionGenerator 0)) (stream_of [0, 11, 10, 4]) 0 \<and>
   \<not> accepted (set_difficulty 1 (QuestionGenerator 0)) (stream_of [0, 11, 10, 4]) 1 \<and>
   accepted (set_difficulty 1 (QuestionGenerator 0)) (stream_of [0, 11, 10, 4]) 2 \<and>
   next_question (set_difficulty 1 (QuestionGenerator 0)) (stream_of [0, 11, 10, 4])
     = Inr ((30, 6, 5), \<lambda>n. stream_of [0, 11, 10, 4] (n + 2 + 2)) \<and>
   fst (retry_loop 200 6 60 (\<lambda>n. stream_of [0, 11, 10, 4] (Suc n))) \<noteq> None"
proof -
  let ?Q = "set_difficulty 1 (QuestionGenerator 0)"
  let ?r = "stream_of [0, 11, 10, 4]"
  have a: "(1 :: int) \<in> {0, 1, 2}" by simp
  have dv: "drawn_divisor ?Q ?r = 6" and mx: "max_dividend ?Q = 60"
    by (simp_all add: drawn_divisor_def set_difficulty_def py_range_def upto.simps stream_of_def)
  have s: "sampled_quot ?r 0 = 12" "sampled_quot ?r 1 = 11" "sampled_quot ?r 2 = 5"
    by (simp_all add: sampled_quot_def stream_of_def)
  have s': "sampled_quot ?r (Suc 0) = 11"
    by (simp add: sampled_quot_def stream_of_def)
  have acc: "\<not> accepted ?Q ?r 0" "\<not> accepted ?Q ?r 1" "accepted ?Q ?r 2"
    by (simp_all add: accepted_def dv mx s s')
  have first: "\<forall>j<2. \<not> accepted ?Q ?r j"
    using acc by (simp add: numeral_2_eq_2 All_less_Suc)
  have some: "\<not> (\<forall>k<200. \<not> accepted ?Q ?r k)"
    using acc(3) by (auto intro: exI [of _ 2])
  note t = fallback_iff_all_rejected [OF a, of 2 "QuestionGenerator 0" ?r]
  from t acc(3) first
  have n: "next_question ?Q ?r
      = Inr ((drawn_divisor ?Q ?r * sampled_quot ?r 2, drawn_divisor ?Q ?r, sampled_quot ?r 2),
             \<lambda>n. ?r (n + 2 + 2))"
    by simp
  from t some have l: "fst (retry_loop 200 (drawn_divisor ?Q ?r) (max_dividend ?Q) (\<lambda>n. ?r (Suc n))) \<noteq> None"
    by blast
  show ?thesis
    using a dv mx s acc n l by simp
qed

text \<open>
  C8 as stated fails: at tier 0, when the divisor drawn is 5 and every sampled quotient is 12, the 200
  iterations all reject 60 > 20 and the question returned is the fallback's (5, 5, 1).
\<close>

theorem fallback_reached:
  "next_question (set_difficulty 0 (QuestionGenerator 0)) four_then_eleven
     = Inr ((5, 5, 1), all_eleven) \<and>
   retry_loop 200 5 (max_dividend (set_difficulty 0 (QuestionGenerator 0))) all_eleven
     = (None, all_eleven)"
proof -
  have t: "(\<lambda>n. all_eleven (Suc n)) = all_eleven"
    by (rule ext) (simp add: all_eleven_def)
  have tl: "retry_loop n 5 20 all_eleven = (None, all_eleven)" for n
    by (induction n) (simp_all add: random_randint_1_12 t, simp add: all_eleven_def)
  have ch: "random_choice (py_range 1 6) four_then_eleven = Inr (5, all_eleven)"
    by (simp add: random_choice_def randbelow_def next_raw_def py_range_def upto.simps
        four_then_eleven_def fun_eq_iff all_eleven_def)
  show ?thesis
    by (simp add: next_question_def set_difficulty_def ch tl)
qed

section \<open>New questions\<close>

lemma next_question_quot_pos:
  assumes "next_question q r = Inr ((a, b, c), r')"
  shows "1 \<le> c \<and> a = b * c"
proof -
  from assms obtain dv r1 where ch: "random_choice (divisors q) r = Inr (dv, r1)"
    by (auto simp: next_question_def split: sum.splits)
  obtain res r2 where rl: "retry_loop 200 dv (max_dividend q) r1 = (res, r2)"
    by (cases "retry_loop 200 dv (max_dividend q) r1")
  show ?thesis
  proof (cases res)
    case None
    with assms ch rl show ?thesis by (simp add: next_question_def)
  next
    case (Some t)
    with assms ch rl have "retry_loop 200 dv (max_dividend q) r1 = (Some (a, b, c), r2)"
      by (simp add: next_question_def)
    then show ?thesis using retry_loop_Some by blast
  qed
qed

lemma answers_loop_ok:
  assumes "answers_loop quot answers r = Some y"
  shows "answers_ok quot answers \<longrightarrow> 1 \<le> quot \<longrightarrow>
           (\<exists>as r'. y = Inr (as, r') \<and> answers_ok quot as \<and> length as = 4)"
proof (rule answers_loop.raw_induct [where P = "\<lambda>quot answers r y.
    answers_ok quot answers \<longrightarrow> 1 \<le> quot \<longrightarrow>
      (\<exists>as r'. y = Inr (as, r') \<and> answers_ok quot as \<and> length as = 4)", OF _ assms], goal_cases)
  case (1 loop quot answers r y)
  show ?case
  proof (intro impI)
    assume ok: "answers_ok quot answers" and q: "1 \<le> quot"
    show "\<exists>as r'. y = Inr (as, r') \<and> answers_ok quot as \<and> length as = 4"
    proof (cases "length answers < 4")
      case False
      with ok have "length answers = 4" by (simp add: answers_ok_def)
      with 1(2) False ok show ?thesis by auto
    next
      case True
      obtain off r1 where ch: "random_choice [- 3, - 2, - 1, 1, 2, 3, 4 :: int] r = Inr (off, r1)"
        using random_choice_nonempty [of "[- 3, - 2, - 1, 1, 2, 3, 4 :: int]" r] by auto
      define cand where "cand = (if quot + off < 1
          then fst (random_randint 1 (max 3 (quot + 3)) r1) else quot + off)"
      define r2 where "r2 = (if quot + off < 1
          then snd (random_randint 1 (max 3 (quot + 3)) r1) else r1)"
      have cpos: "1 \<le> cand"
        using random_randint_range [of 1 "max 3 (quot + 3)" r1] by (simp add: cand_def)
      show ?thesis
      proof (cases "cand \<in> set answers")
        case True
        with 1(2) \<open>length answers < 4\<close> ch have "loop quot answers r2 = Some y"
          by (simp add: Let_def cand_def r2_def)
        from 1(1) [OF this] ok q show ?thesis by blast
      next
        case False
        with 1(2) \<open>length answers < 4\<close> ch have "loop quot (answers @ [cand]) r2 = Some y"
          by (simp add: Let_def cand_def r2_def)
        moreover from ok False cpos \<open>length answers < 4\<close> have "answers_ok quot (answers @ [cand])"
          by (auto simp: answers_ok_def)
        ultimately show ?thesis using 1(1) q by blast
      qed
    qed
  qed
qed

lemma shuffle_from_mset:
  "n < length xs \<or> n = 0 \<Longrightarrow> mset (fst (shuffle_from n xs r)) = mset xs"
proof (induction n arbitrary: xs r)
  case 0
  show ?case by simp
next
  case (Suc i)
  then have len: "Suc i < length xs" by simp
  have j: "fst (randbelow (Suc i + 1) r) < length xs"
    using randbelow_less [of "Suc i + 1" r] len by simp
  have "mset (xs[Suc i := xs ! fst (randbelow (Suc i + 1) r),
                  fst (randbelow (Suc i + 1) r) := xs ! Suc i]) = mset xs"
    using j len by (rule mset_swap)
  moreover have "mset (fst (shuffle_from i (xs[Suc i := xs ! fst (randbelow (Suc i + 1) r),
                  fst (randbelow (Suc i + 1) r) := xs ! Suc i]) (snd (randbelow (Suc i + 1) r))))
      = mset (xs[Suc i := xs ! fst (randbelow (Suc i + 1) r),
                  fst (randbelow (Suc i + 1) r) := xs ! Suc i])"
    using len by (intro Suc.IH) simp
  ultimately show ?case by (simp add: Let_def)
qed

lemma random_shuffle_mset: "mset (fst (random_shuffle xs r)) = mset xs"
  unfolding random_shuffle_def by (rule shuffle_from_mset) (cases xs, auto)

lemma place_meteors_result:
  "\<exists>new. fst (place_meteors i as ms r) = ms @ new \<and> map m_text new = as \<and>
         (\<forall>m\<in>set new. m_y m \<le> - 60 \<and> - 200 \<le> m_y m \<and> \<not> m_hit m)"
proof (induction as arbitrary: i ms r)
  case Nil
  show ?case by simp
next
  case (Cons a as)
  define r1 where "r1 = snd (random_uniform (- 20) 20 r)"
  define x where "x = py_int (real_of_int 70 + real_of_int (WIDTH - 70 * 2) / 4 / 2
      + real i * (real_of_int (WIDTH - 70 * 2) / 4) + fst (random_uniform (- 20) 20 r))"
  define y where "y = fst (random_randint (- 200) (- 60) r1)"
  define r2 where "r2 = snd (random_randint (- 200) (- 60) r1)"
  define speed where "speed = fst (random_uniform FALL_SPEED_MIN FALL_SPEED_MAX r2)"
  define r3 where "r3 = snd (random_uniform FALL_SPEED_MIN FALL_SPEED_MAX r2)"
  have step: "place_meteors i (a # as) ms r = place_meteors (Suc i) as (ms @ [Meteor x y a speed]) r3"
    by (simp add: Let_def split_def x_def y_def speed_def r1_def r2_def r3_def)
  have y: "- 200 \<le> y \<and> y \<le> - 60"
    unfolding y_def by (rule random_randint_range) simp
  from Cons.IH [of "Suc i" "ms @ [Meteor x y a speed]" r3] obtain new
    where n: "fst (place_meteors (Suc i) as (ms @ [Meteor x y a speed]) r3)
                = (ms @ [Meteor x y a speed]) @ new" "map m_text new = as"
      "\<forall>m\<in>set new. m_y m \<le> - 60 \<and> - 200 \<le> m_y m \<and> \<not> m_hit m"
    by blast
  show ?case
    by (rule exI [of _ "Meteor x y a speed # new"]) (use step n y in \<open>simp add: Meteor_def\<close>)
qed

lemma next_raw_stream_of_Cons [simp]: "next_raw (stream_of (x # xs)) = (x, stream_of xs)"
  by (auto simp: next_raw_def stream_of_def fun_eq_iff)

lemma next_raw_stream_of_Nil [simp]: "next_raw (stream_of []) = (0, stream_of [])"
  by (auto simp: next_raw_def stream_of_def fun_eq_iff)

lemma shuffle_from_unfold:
  "0 < n \<Longrightarrow> shuffle_from n xs r =
     shuffle_from (n - 1) (xs[n := xs ! fst (randbelow (n + 1) r), fst (randbelow (n + 1) r) := xs ! n])
       (snd (randbelow (n + 1) r))"
  by (cases n) (simp_all add: Let_def)

lemma shuffle_stream:
  "random_shuffle [4, 5, 6, 7 :: int] (stream_of []) = ([5, 6, 7, 4], stream_of [])"
  by (simp add: random_shuffle_def shuffle_from_unfold randbelow_def)

lemma place_stream:
  "place_meteors 0 [5, 6, 7, 4] [] (stream_of []) = 
    ([Meteor 145 (- 200) 5 60, Meteor 335 (- 200) 6 60,
                 Meteor 525 (- 200) 7 60, Meteor 715 (- 200) 4 60], stream_of [])"
  by (simp add: random_uniform_def random_random_def random_randint_def randbelow_def
       FALL_SPEED_MIN_def FALL_SPEED_MAX_def WIDTH_def py_int_def)

lemma answers_loop_stream:
  "answers_loop 4 [4] (stream_of [3, 4, 5]) = Some (Inr ([4, 5, 6, 7], stream_of []))"
  by (simp add: answers_loop.simps random_choice_def randbelow_def)

lemma retry_loop_accept:
  assumes "0 < n" and "1 \<le> dv * fst (random_randint 1 12 r)"
    and "dv * fst (random_randint 1 12 r) \<le> mx"
  shows "retry_loop n dv mx r
      = (Some (dv * fst (random_randint 1 12 r), dv, fst (random_randint 1 12 r)),
         snd (random_randint 1 12 r))"
  using assms by (cases n) (simp_all add: Let_def)

lemma distinct_count_one:
  "distinct (map f xs) \<Longrightarrow> v \<in> f ` set xs \<Longrightarrow> length (filter (\<lambda>x. f x = v) xs) = 1"
  by (induction xs) (auto simp: image_iff filter_empty_conv)

lemma make_new_question_result:
  assumes "make_new_question w = Some (Inr w')"
  shows "\<exists>dividend divisor quot ms r'.
           w' = w\<lparr>game := (game w)\<lparr>current_question := Some (dividend, divisor, quot),
                                     meteors := ms, question_in_progress := True\<rparr>, rng := r'\<rparr> \<and>
           dividend = divisor * quot \<and> 1 \<le> quot \<and> length ms = 4 \<and>
           distinct (map m_text ms) \<and> quot \<in> m_text ` set ms \<and>
           (\<forall>m\<in>set ms. 1 \<le> m_text m \<and> m_y m \<le> - 60 \<and> \<not> m_hit m)"
proof -
  from assms obtain a b c r1 where nq: "next_question (qgen (game w)) (rng w) = Inr ((a, b, c), r1)"
    by (auto simp: make_new_question_def raise_def split: sum.splits)
  then have c: "1 \<le> c" "a = b * c" using next_question_quot_pos by blast+
  from assms nq obtain as r2 where al: "answers_loop c [c] r1 = Some (Inr (as, r2))"
    by (auto simp: make_new_question_def and_then_def split: option.splits sum.splits)
  have "answers_ok c [c]" using c by (simp add: answers_ok_def)
  with answers_loop_ok [OF al] c have as: "answers_ok c as" "length as = 4" by auto
  define sh where "sh = fst (random_shuffle as r2)"
  define r3 where "r3 = snd (random_shuffle as r2)"
  have ms: "mset sh = mset as" unfolding sh_def by (rule random_shuffle_mset)
  from place_meteors_result [of 0 sh "[]" r3] obtain ms
    where pm: "fst (place_meteors 0 sh [] r3) = ms" "map m_text ms = sh"
      "\<forall>m\<in>set ms. m_y m \<le> - 60 \<and> - 200 \<le> m_y m \<and> \<not> m_hit m"
    by auto
  have w': "w' = w\<lparr>game := (game w)\<lparr>current_question := Some (a, b, c), meteors := ms,
                       question_in_progress := True\<rparr>, rng := snd (place_meteors 0 sh [] r3)\<rparr>"
    using assms nq al pm(1)
    by (simp add: make_new_question_def and_then_def ret_def split_def Let_def sh_def r3_def)
  have d: "distinct sh" using ms as(1) mset_eq_imp_distinct_iff [OF ms] by (simp add: answers_ok_def)
  have s: "set sh = set as" using ms by (rule mset_eq_setD)
  have l: "length sh = 4" using mset_eq_length [OF ms] as(2) by simp
  have l': "length ms = 4" using l pm(2) by (metis length_map)
  have pos: "\<forall>m\<in>set ms. 1 \<le> m_text m"
  proof
    fix m assume "m \<in> set ms"
    then have "m_text m \<in> set (map m_text ms)" by simp
    with pm(2) s as(1) show "1 \<le> m_text m" by (simp add: answers_ok_def)
  qed
  have q: "c \<in> m_text ` set ms"
  proof -
    have "c \<in> set (map m_text ms)" using pm(2) s as(1) by (simp add: answers_ok_def)
    then show ?thesis by simp
  qed
  show ?thesis
    using w' c l' d pm(2,3) pos q by blast
qed

lemma answers_loop_steps:
  assumes "1 \<le> quot" and "r 0 mod 7 = 3" and "r 1 mod 7 = 4" and "r 2 mod 7 = 5"
  shows "answers_loop quot [quot] r
     = Some (Inr ([quot, quot + 1, quot + 2, quot + 3], \<lambda>n. r (Suc (Suc (Suc n)))))"
proof -
  let ?offs = "[- 3, - 2, - 1, 1, 2, 3, 4] :: int list"
  have c1: "random_choice ?offs r = Inr (1, \<lambda>n. r (Suc n))"
    using assms(2) by (simp add: random_choice_def randbelow_def next_raw_def)
  have c2: "random_choice ?offs (\<lambda>n. r (Suc n)) = Inr (2, \<lambda>n. r (Suc (Suc n)))"
    using assms(3) by (simp add: random_choice_def randbelow_def next_raw_def)
  have c3: "random_choice ?offs (\<lambda>n. r (Suc (Suc n))) = Inr (3, \<lambda>n. r (Suc (Suc (Suc n))))"
    using assms(4) by (simp add: random_choice_def randbelow_def next_raw_def numeral_2_eq_2)
  have "answers_loop quot [quot] r = answers_loop quot [quot, quot + 1] (\<lambda>n. r (Suc n))"
    using assms(1) by (subst answers_loop.simps) (simp add: c1)
  also have "\<dots> = answers_loop quot [quot, quot + 1, quot + 2] (\<lambda>n. r (Suc (Suc n)))"
    using assms(1) by (subst answers_loop.simps) (simp add: c2)
  also have "\<dots> = answers_loop quot [quot, quot + 1, quot + 2, quot + 3] (\<lambda>n. r (Suc (Suc (Suc n))))"
    using assms(1) by (subst answers_loop.simps) (simp add: c3)
  also have "\<dots> = Some (Inr ([quot, quot + 1, quot + 2, quot + 3], \<lambda>n. r (Suc (Suc (Suc n)))))"
    by (subst answers_loop.simps) simp
  finally show ?thesis .
qed

lemma make_new_question_returns:
  assumes "next_question (qgen (game w)) (rng w) = Inr (q, r1)"
    and "r1 0 mod 7 = 3" and "r1 1 mod 7 = 4" and "r1 2 mod 7 = 5"
  shows "\<exists>w'. make_new_question w = Some (Inr w')"
proof -
  obtain a b c where q: "q = (a, b, c)" by (cases q)
  from assms(1) have c: "1 \<le> c"
    unfolding q using next_question_quot_pos by blast
  note al = answers_loop_steps [OF c assms(2-4)]
  show ?thesis
    by (simp add: make_new_question_def assms(1) q al split_def Let_def ret_def and_then_def)
qed

text \<open>
  C3. Whenever \<open>make_new_question\<close> returns, the game holds exactly 4 meteors, their
  labels are pairwise distinct and at least 1, and exactly one of them is the quotient of
  the question it stored. It returns for every question of \<open>next_question\<close> when the
  three draws that follow pick the offsets 1, 2 and 3.
\<close>

theorem make_new_question_four_answers:
  "(make_new_question w = Some (Inr w') \<longrightarrow>
      length (meteors (game w')) = 4 \<and>
      distinct (map m_text (meteors (game w'))) \<and>
      (\<forall>m\<in>set (meteors (game w')). 1 \<le> m_text m) \<and>
      (\<exists>dividend divisor quot.
         current_question (game w') = Some (dividend, divisor, quot) \<and>
         length (filter (\<lambda>m. m_text m = quot) (meteors (game w'))) = 1)) \<and>
   (next_question (qgen (game v)) (rng v) = Inr (q, r1) \<and>
    r1 0 mod 7 = 3 \<and> r1 1 mod 7 = 4 \<and> r1 2 mod 7 = 5 \<longrightarrow>
      (\<exists>v'. make_new_question v = Some (Inr v')))"
proof (intro conjI impI)
  assume "make_new_question w = Some (Inr w')"
  from make_new_question_result [OF this] obtain dividend divisor quot ms r'
    where r: "w' = w\<lparr>game := (game w)\<lparr>current_question := Some (dividend, divisor, quot),
                        meteors := ms, question_in_progress := True\<rparr>, rng := r'\<rparr>"
      "length ms = 4" "distinct (map m_text ms)" "quot \<in> m_text ` set ms"
      "\<forall>m\<in>set ms. 1 \<le> m_text m \<and> m_y m \<le> - 60 \<and> \<not> m_hit m"
    by blast
  from r(3,4) have "length (filter (\<lambda>m. m_text m = quot) ms) = 1"
    by (rule distinct_count_one)
  with r show "length (meteors (game w')) = 4"
    and "distinct (map m_text (meteors (game w')))"
    and "\<forall>m\<in>set (meteors (game w')). 1 \<le> m_text m"
    and "\<exists>dividend divisor quot.
         current_question (game w') = Some (dividend, divisor, quot) \<and>
         length (filter (\<lambda>m. m_text m = quot) (meteors (game w'))) = 1"
    by simp_all
next
  assume "next_question (qgen (game v)) (rng v) = Inr (q, r1) \<and>
    r1 0 mod 7 = 3 \<and> r1 1 mod 7 = 4 \<and> r1 2 mod 7 = 5"
  then show "\<exists>v'. make_new_question v = Some (Inr v')"
    using make_new_question_returns by blast
qed

lemma QuestionGenerator_0:
  "QuestionGenerator 0 = \<lparr>qg_difficulty = 0, divisors = [1, 2, 3, 4, 5], max_dividend = 20\<rparr>"
  by (simp add: QuestionGenerator_def set_difficulty_def py_range_def upto.simps)

lemma next_question_r_init:
  "next_question \<lparr>qg_difficulty = d, divisors = [1, 2, 3, 4, 5], max_dividend = 20\<rparr> r_init
     = Inr ((12, 3, 4), stream_of [3, 4, 5])"
  by (simp add: next_question_def r_init_def random_choice_def randbelow_def retry_loop_accept
      random_randint_def)

lemma make_new_question_r_init:
  assumes "qgen (game w) = \<lparr>qg_difficulty = d, divisors = [1, 2, 3, 4, 5], max_dividend = 20\<rparr>"
    and "rng w = r_init"
  shows "make_new_question w =
     Some (Inr (w\<lparr>game := (game w)\<lparr>current_question := Some (12, 3, 4),
                  meteors := [Meteor 145 (- 200) 5 60, Meteor 335 (- 200) 6 60,
                              Meteor 525 (- 200) 7 60, Meteor 715 (- 200) 4 60],
                  question_in_progress := True\<rparr>, rng := stream_of []\<rparr>))"
  by (simp add: make_new_question_def assms next_question_r_init answers_loop_stream
      and_then_def shuffle_stream place_stream ret_def del: place_meteors.simps)

lemma Game_init_r_init: "Game_init r_init = Some (Inr w_init)"
  by (simp add: Game_init_def reset_play_def make_new_question_r_init QuestionGenerator_0
      and_then_def ret_def w_init_def g_init_def WIDTH_def HEIGHT_def)

theorem make_new_question_four_answers_witness:
  "make_new_question (w_init\<lparr>rng := r_init\<rparr>) = Some (Inr w_init) \<and>
   length (meteors (game w_init)) = 4 \<and>
   distinct (map m_text (meteors (game w_init))) \<and>
   map m_text (meteors (game w_init)) = [5, 6, 7, 4] \<and>
   (\<exists>dividend divisor quot.
      current_question (game w_init) = Some (dividend, divisor, quot) \<and>
      length (filter (\<lambda>m. m_text m = quot) (meteors (game w_init))) = 1) \<and>
   next_question (qgen (game (w_init\<lparr>rng := r_init\<rparr>))) (rng (w_init\<lparr>rng := r_init\<rparr>))
     = Inr ((12, 3, 4), stream_of [3, 4, 5]) \<and>
   stream_of [3, 4, 5] 0 mod 7 = 3 \<and> stream_of [3, 4, 5] 1 mod 7 = 4 \<and>
   stream_of [3, 4, 5] 2 mod 7 = 5 \<and>
   (\<exists>v'. make_new_question (w_init\<lparr>rng := r_init\<rparr>) = Some (Inr v'))"
proof -
  have m: "make_new_question (w_init\<lparr>rng := r_init\<rparr>) = Some (Inr w_init)"
    by (simp add: make_new_question_r_init [where d = 0] w_init_def g_init_def)
  have l: "map m_text (meteors (game w_init)) = [5, 6, 7, 4]"
    by (simp add: w_init_def g_init_def Meteor_def)
  have n: "next_question (qgen (game (w_init\<lparr>rng := r_init\<rparr>))) (rng (w_init\<lparr>rng := r_init\<rparr>))
     = Inr ((12, 3, 4), stream_of [3, 4, 5])"
    using next_question_r_init [of 0] by (simp add: w_init_def g_init_def)
  have d: "stream_of [3, 4, 5] 0 mod 7 = 3" "stream_of [3, 4, 5] 1 mod 7 = 4"
    "stream_of [3, 4, 5] 2 mod 7 = 5"
    by (simp_all add: stream_of_def)
  from make_new_question_four_answers [of "w_init\<lparr>rng := r_init\<rparr>" w_init
      "w_init\<lparr>rng := r_init\<rparr>" "(12, 3, 4)" "stream_of [3, 4, 5]"] m l n d
  show ?thesis by simp
qed

section \<open>Hit resolution\<close>

lemma spawn_particles_append:
  "\<exists>new. fst (spawn_particles n pos ps r) = ps @ new \<and> length new = n \<and>
         (\<forall>p\<in>set new. p_x p = fst pos \<and> p_y p = snd pos \<and> p_age p = 0)"
proof (induction n arbitrary: ps r)
  case 0
  show ?case by simp
next
  case (Suc n)
  obtain p r' where e: "ExplosionParticle pos r = (p, r')"
    by (cases "ExplosionParticle pos r")
  then have p: "p_x p = fst pos \<and> p_y p = snd pos \<and> p_age p = 0"
    by (auto simp: ExplosionParticle_def Let_def split_def)
  from Suc.IH [of "ps @ [p]" r'] obtain new
    where n: "fst (spawn_particles n pos (ps @ [p]) r') = (ps @ [p]) @ new" "length new = n"
      "\<forall>p\<in>set new. p_x p = fst pos \<and> p_y p = snd pos \<and> p_age p = 0"
    by blast
  show ?case
    by (rule exI [of _ "p # new"]) (use e p n in simp)
qed

lemma on_meteor_hit_result:
  assumes "current_question (game w) = Some (a, b, c)"
  shows "\<exists>new r'. on_meteor_hit m w =
           Some (Inr (w\<lparr>game := (game w)\<lparr>total_attempts := total_attempts (game w) + 1,
                          correct_count := correct_count (game w) + (if m_text m = c then 1 else 0),
                          particles := particles (game w) @ new, meteors := []\<rparr>,
                        rng := r', timer := Some 450\<rparr>)) \<and>
           length new = (if m_text m = c then 30 else 12)"
proof (cases "m_text m = c")
  case True
  from spawn_particles_append [of 30 "(real_of_int (m_x m), m_y m)" "particles (game w)" "rng w"]
  obtain new where "fst (spawn_particles 30 (real_of_int (m_x m), m_y m) (particles (game w)) (rng w))
      = particles (game w) @ new" "length new = 30"
    by blast
  with assms True show ?thesis
    by (intro exI [of _ new]
          exI [of _ "snd (spawn_particles 30 (real_of_int (m_x m), m_y m) (particles (game w)) (rng w))"])
       (simp add: on_meteor_hit_def ret_def Let_def split_def)
next
  case False
  from spawn_particles_append [of 12 "(real_of_int (m_x m), m_y m)" "particles (game w)" "rng w"]
  obtain new where "fst (spawn_particles 12 (real_of_int (m_x m), m_y m) (particles (game w)) (rng w))
      = particles (game w) @ new" "length new = 12"
    by blast
  with assms False show ?thesis
    by (intro exI [of _ new]
          exI [of _ "snd (spawn_particles 12 (real_of_int (m_x m), m_y m) (particles (game w)) (rng w))"])
       (simp add: on_meteor_hit_def ret_def Let_def split_def)
qed

lemma on_meteor_hit_None:
  "current_question (game w) = None \<Longrightarrow> on_meteor_hit m w = Some (Inl TypeError)"
  by (simp add: on_meteor_hit_def raise_def)

text \<open>
  C2. With a question active, \<open>on_meteor_hit\<close> returns; it adds exactly 1 to
  \<open>total_attempts\<close>; when the meteor's label is the quotient it adds exactly 1 to
  \<open>correct_count\<close> and appends 30 particles, otherwise it leaves \<open>correct_count\<close> as it
  is and appends 12 particles; in both cases the meteor list is empty afterwards.
\<close>

theorem on_meteor_hit_counts:
  assumes "current_question (game w) = Some (dividend, divisor, quot)"
  shows "\<exists>w' new. on_meteor_hit m w = Some (Inr w') \<and>
           meteors (game w') = [] \<and>
           total_attempts (game w') = total_attempts (game w) + 1 \<and>
           correct_count (game w') = correct_count (game w) + (if m_text m = quot then 1 else 0) \<and>
           particles (game w') = particles (game w) @ new \<and>
           length new = (if m_text m = quot then 30 else 12)"
proof -
  from on_meteor_hit_result [OF assms, of m] obtain new r'
    where "on_meteor_hit m w =
           Some (Inr (w\<lparr>game := (game w)\<lparr>total_attempts := total_attempts (game w) + 1,
                          correct_count := correct_count (game w) + (if m_text m = quot then 1 else 0),
                          particles := particles (game w) @ new, meteors := []\<rparr>,
                        rng := r', timer := Some 450\<rparr>))"
      and "length new = (if m_text m = quot then 30 else 12)"
    by blast
  then show ?thesis by simp
qed

theorem on_meteor_hit_counts_witness:
  "current_question (game w_play) = Some (12, 3, 4) \<and>
   (\<exists>w' new. on_meteor_hit (Meteor 715 500 4 60) w_play = Some (Inr w') \<and>
      meteors (game w') = [] \<and> total_attempts (game w') = 1 \<and> correct_count (game w') = 1 \<and>
      particles (game w') = new \<and> length new = 30) \<and>
   (\<exists>w' new. on_meteor_hit (Meteor 145 100 5 60) w_play = Some (Inr w') \<and>
      meteors (game w') = [] \<and> total_attempts (game w') = 1 \<and> correct_count (game w') = 0 \<and>
      particles (game w') = new \<and> length new = 12)"
proof -
  have q: "current_question (game w_play) = Some (12, 3, 4)"
    by (simp add: w_play_def g_play_def g_init_def)
  have s: "total_attempts (game w_play) = 0" "correct_count (game w_play) = 0"
    "particles (game w_play) = []"
    by (simp_all add: w_play_def g_play_def g_init_def)
  show ?thesis
    using q on_meteor_hit_counts [OF q, of "Meteor 715 500 4 60"]
      on_meteor_hit_counts [OF q, of "Meteor 145 100 5 60"]
    by (simp add: s Meteor_def)
qed

section \<open>Clicks\<close>

text \<open>
  C4 (as amended). A primary click in the playing state always sets the beam to the
  ship's position (\<open>ship_x\<close>, \<open>ship_y - 34\<close>), whether a beam is in flight or not, and
  changes nothing else; the game holds at most one beam, the field \<open>beam\<close>.
\<close>

theorem click_fires_from_ship:
  assumes "state (game w) = Playing"
  shows "handle_event (MOUSEBUTTONDOWN pos 1) w =
           Some (Inr (w\<lparr>game := (game w)\<lparr>beam :=
             Some (real_of_int (ship_x (game w)), real_of_int (ship_y (game w) - 34))\<rparr>\<rparr>))"
  using assms by (simp add: handle_event_def handle_click_def fire_beam_def ret_def)

theorem click_fires_from_ship_witness:
  "state (game w_play) = Playing \<and>
   handle_event (MOUSEBUTTONDOWN (300, 200) 1) w_play =
     Some (Inr (w_play\<lparr>game := (game w_play)\<lparr>beam := Some (715, 536)\<rparr>\<rparr>))"
proof -
  have p: "state (game w_play) = Playing"
    by (simp add: w_play_def g_play_def)
  show ?thesis
    using p click_fires_from_ship [OF p, of "(300, 200)"]
    by (simp add: w_play_def g_play_def g_init_def)
qed

text \<open>
  C4 as stated fails: with the beam in flight at y = 498, a click puts it back at the ship, at y = 536.
\<close>

theorem click_replaces_beam:
  "state (game w_play) = Playing \<and> beam (game w_play) = Some (715, 498) \<and>
   handle_event (MOUSEBUTTONDOWN (300, 200) 1) w_play =
     Some (Inr (w_play\<lparr>game := (game w_play)\<lparr>beam := Some (715, 536)\<rparr>\<rparr>)) \<and>
   beam (game (w_play\<lparr>game := (game w_play)\<lparr>beam := Some (715, 536)\<rparr>\<rparr>)) \<noteq> beam (game w_play)"
  by (simp add: handle_event_def handle_click_def fire_beam_def ret_def w_play_def g_play_def
      g_init_def)

section \<open>Resetting the play state\<close>

lemma reset_play_result:
  assumes "reset_play w = Some (Inr w')"
  shows "correct_count (game w') = 0 \<and> total_attempts (game w') = 0 \<and>
         beam (game w') = None \<and> state (game w') = state (game w) \<and>
         difficulty (game w') = difficulty (game w) \<and> qgen (game w') = qgen (game w) \<and>
         particles (game w') = particles (game w) \<and> buttons (game w') = buttons (game w) \<and>
         ship_x (game w') = WIDTH div 2 \<and> ship_y (game w') = HEIGHT - 80 \<and>
         timer w' = timer w \<and> running w' = running w \<and>
         length (meteors (game w')) = 4 \<and>
         (\<forall>m\<in>set (meteors (game w')). 1 \<le> m_text m \<and> m_y m \<le> - 60 \<and> \<not> m_hit m) \<and>
         (\<exists>q. current_question (game w') = Some q)"
proof -
  from assms have "make_new_question
       (w\<lparr>game := (game w)\<lparr>correct_count := 0, total_attempts := 0, current_question := None,
                            meteors := [], ship_x := WIDTH div 2, ship_y := HEIGHT - 80,
                            beam := None, beam_speed := 900, spawn_timer := 0,
                            question_in_progress := False\<rparr>\<rparr>) = Some (Inr w')"
    by (simp add: reset_play_def)
  from make_new_question_result [OF this] show ?thesis by auto
qed

lemma and_then_Inr:
  "and_then m f = Some (Inr v) \<longleftrightarrow> (\<exists>u. m = Some (Inr u) \<and> f u = Some (Inr v))"
  by (auto simp: and_then_def split: option.splits sum.splits)

text \<open>
  C9. In the level-clear state, when the click falls on a button tagged next or retry and
  \<open>handle_click\<close> returns: the difficulty is one more after next below 2 and unchanged
  otherwise (next at 2, retry); both counters are 0, the beam is gone, the meteors are the
  4 of a new question, all above the screen, and the state is playing. The click returns
  for every question that \<open>next_question\<close> draws from the generator of the new difficulty
  when the three draws that follow pick the offsets 1, 2 and 3.
\<close>

theorem level_clear_next_retry:
  assumes "state (game w) = Level_clear"
    and "buttons (game w) = Some bs"
    and "find (\<lambda>(rc, tg). collidepoint rc pos) bs = Some (rc, tg)"
    and "tg = Tag_next \<or> tg = Tag_retry"
  shows "(handle_click pos b w = Some (Inr w') \<longrightarrow>
           difficulty (game w') =
             (if tg = Tag_next \<and> difficulty (game w) < 2 then difficulty (game w) + 1
              else difficulty (game w)) \<and>
           correct_count (game w') = 0 \<and> total_attempts (game w') = 0 \<and>
           beam (game w') = None \<and> length (meteors (game w')) = 4 \<and>
           (\<forall>m\<in>set (meteors (game w')). m_y m \<le> - 60) \<and>
           (\<exists>q. current_question (game w') = Some q) \<and>
           state (game w') = Playing) \<and>
         (next_question
            (if tg = Tag_next then
               (if difficulty (game w) < 2
                then set_difficulty (difficulty (game w) + 1) (qgen (game w))
                else qgen (game w))
             else set_difficulty (difficulty (game w)) (qgen (game w)))
            (rng w) = Inr (q, r') \<and>
          r' 0 mod 7 = 3 \<and> r' 1 mod 7 = 4 \<and> r' 2 mod 7 = 5 \<longrightarrow>
            (\<exists>u. handle_click pos b w = Some (Inr u)))"
proof (intro conjI impI)
  define w1 where "w1 =
    (if tg = Tag_next then
       (if difficulty (game w) < 2
        then w\<lparr>game := (game w)\<lparr>difficulty := difficulty (game w) + 1,
               qgen := set_difficulty (difficulty (game w) + 1) (qgen (game w))\<rparr>\<rparr>
        else w)
     else w\<lparr>game := (game w)\<lparr>qgen := set_difficulty (difficulty (game w)) (qgen (game w))\<rparr>\<rparr>)"
  have hc: "handle_click pos b w =
      and_then (reset_play w1) (\<lambda>w'. ret (w'\<lparr>game := (game w')\<lparr>state := Playing\<rparr>\<rparr>))"
    using assms by (auto simp: handle_click_def w1_def Let_def)
  {
    assume hw: "handle_click pos b w = Some (Inr w')"
    have "and_then (reset_play w1) (\<lambda>w'. ret (w'\<lparr>game := (game w')\<lparr>state := Playing\<rparr>\<rparr>))
        = Some (Inr w')"
      using hc hw by simp
    then obtain u where u: "reset_play w1 = Some (Inr u)"
      and w': "w' = u\<lparr>game := (game u)\<lparr>state := Playing\<rparr>\<rparr>"
      by (auto simp: and_then_Inr ret_def)
    have d: "difficulty (game w1) =
             (if tg = Tag_next \<and> difficulty (game w) < 2 then difficulty (game w) + 1
              else difficulty (game w))"
      by (simp add: w1_def)
    from reset_play_result [OF u] d
    show "difficulty (game w') =
             (if tg = Tag_next \<and> difficulty (game w) < 2 then difficulty (game w) + 1
              else difficulty (game w))"
      and "correct_count (game w') = 0" and "total_attempts (game w') = 0"
      and "beam (game w') = None" and "length (meteors (game w')) = 4"
      and "\<forall>m\<in>set (meteors (game w')). m_y m \<le> - 60"
      and "\<exists>q. current_question (game w') = Some q"
      and "state (game w') = Playing"
      by (simp_all add: w')
  }
  assume a: "next_question
            (if tg = Tag_next then
               (if difficulty (game w) < 2
                then set_difficulty (difficulty (game w) + 1) (qgen (game w))
                else qgen (game w))
             else set_difficulty (difficulty (game w)) (qgen (game w)))
            (rng w) = Inr (q, r') \<and>
          r' 0 mod 7 = 3 \<and> r' 1 mod 7 = 4 \<and> r' 2 mod 7 = 5"
  let ?w0 = "w1\<lparr>game := (game w1)\<lparr>correct_count := 0, total_attempts := 0,
                 current_question := None, meteors := [], ship_x := WIDTH div 2,
                 ship_y := HEIGHT - 80, beam := None, beam_speed := 900, spawn_timer := 0,
                 question_in_progress := False\<rparr>\<rparr>"
  from a have "next_question (qgen (game ?w0)) (rng ?w0) = Inr (q, r')"
    by (auto simp: w1_def split: if_splits)
  from make_new_question_returns [OF this] a obtain u0
    where "make_new_question ?w0 = Some (Inr u0)" by blast
  then have "reset_play w1 = Some (Inr u0)"
    by (simp add: reset_play_def)
  then show "\<exists>u. handle_click pos b w = Some (Inr u)"
    by (simp add: hc and_then_def ret_def)
qed

lemma make_new_question_345:
  assumes "next_question (qgen (game w)) (rng w) = Inr ((a, b, 4), stream_of [3, 4, 5])"
  shows "make_new_question w =
     Some (Inr (w\<lparr>game := (game w)\<lparr>current_question := Some (a, b, 4),
                  meteors := [Meteor 145 (- 200) 5 60, Meteor 335 (- 200) 6 60,
                              Meteor 525 (- 200) 7 60, Meteor 715 (- 200) 4 60],
                  question_in_progress := True\<rparr>, rng := stream_of []\<rparr>))"
  by (simp add: make_new_question_def assms answers_loop_stream
      and_then_def shuffle_stream place_stream ret_def del: place_meteors.simps)

lemma next_question_r_init_tier1:
  "next_question \<lparr>qg_difficulty = d, divisors = [6, 7, 8, 9], max_dividend = 60\<rparr> r_init
     = Inr ((32, 8, 4), stream_of [3, 4, 5])"
  by (simp add: next_question_def r_init_def random_choice_def randbelow_def retry_loop_accept
      random_randint_def)

lemma next_question_r_init_tier2:
  "next_question \<lparr>qg_difficulty = d, divisors = [1, 2, 3, 4, 5, 6, 7, 8, 9], max_dividend = 81\<rparr> r_init
     = Inr ((12, 3, 4), stream_of [3, 4, 5])"
  by (simp add: next_question_def r_init_def random_choice_def randbelow_def retry_loop_accept
      random_randint_def)

lemma g_clear_buttons:
  "buttons g_clear = Some [((250, 345, 160, 50), Tag_next), ((430, 345, 160, 50), Tag_retry),
                           ((610, 345, 160, 50), Tag_menu)]"
  by (simp add: g_clear_def draw_buttons_def WIDTH_def HEIGHT_def)

lemma handle_click_w_clear: "handle_click (300, 360) 1 w_clear = Some (Inr w_next)"
proof -
  have "make_new_question (w_clear\<lparr>game := g_next\<lparr>state := Level_clear,
           current_question := None, meteors := [], question_in_progress := False\<rparr>\<rparr>)
      = Some (Inr (w_next\<lparr>game := g_next\<lparr>state := Level_clear\<rparr>\<rparr>))"
    by (simp add: make_new_question_345 [where a = 12 and b = 3] next_question_r_init_tier2
        w_clear_def g_next_def w_next_def g_init_def)
  then show ?thesis
    by (simp add: handle_click_def w_clear_def g_clear_buttons collidepoint_def
        reset_play_def set_difficulty_def py_range_def upto.simps and_then_def ret_def
        g_clear_def draw_buttons_def g_next_def g_init_def WIDTH_def HEIGHT_def w_next_def)
qed

lemma handle_click_w_clear2: "handle_click (300, 360) 1 w_clear2 = Some (Inr w_next)"
proof -
  have "make_new_question (w_clear2\<lparr>game := g_next\<lparr>state := Level_clear,
           current_question := None, meteors := [], question_in_progress := False\<rparr>\<rparr>)
      = Some (Inr (w_next\<lparr>game := g_next\<lparr>state := Level_clear\<rparr>\<rparr>))"
    by (simp add: make_new_question_345 [where a = 12 and b = 3] next_question_r_init_tier2
        w_clear2_def g_next_def w_next_def g_init_def)
  then show ?thesis
    by (simp add: handle_click_def w_clear2_def g_clear_buttons collidepoint_def
        reset_play_def and_then_def ret_def
        g_next_def g_init_def WIDTH_def HEIGHT_def w_next_def)
qed

lemma handle_click_w_clear_retry: "handle_click (500, 360) 1 w_clear = Some (Inr w_retry)"
proof -
  have "make_new_question (w_clear\<lparr>game := g_retry\<lparr>state := Level_clear,
           current_question := None, meteors := [], question_in_progress := False\<rparr>\<rparr>)
      = Some (Inr (w_retry\<lparr>game := g_retry\<lparr>state := Level_clear\<rparr>\<rparr>))"
    by (simp add: make_new_question_345 [where a = 32 and b = 8] next_question_r_init_tier1
        w_clear_def g_retry_def w_retry_def g_init_def)
  then show ?thesis
    by (simp add: handle_click_def w_clear_def g_clear_buttons collidepoint_def
        reset_play_def set_difficulty_def py_range_def upto.simps and_then_def ret_def
        g_clear_def draw_buttons_def g_retry_def g_init_def WIDTH_def HEIGHT_def w_retry_def)
qed

theorem level_clear_next_retry_witness:
  "state (game w_clear) = Level_clear \<and> difficulty (game w_clear) = 1 \<and>
   correct_count (game w_clear) = 20 \<and> beam (game w_clear) = Some (300, 120) \<and>
   handle_click (300, 360) 1 w_clear = Some (Inr w_next) \<and>
   difficulty (game w_next) = 2 \<and> correct_count (game w_next) = 0 \<and>
   total_attempts (game w_next) = 0 \<and> beam (game w_next) = None \<and>
   length (meteors (game w_next)) = 4 \<and> state (game w_next) = Playing \<and>
   state (game w_clear2) = Level_clear \<and> difficulty (game w_clear2) = 2 \<and>
   handle_click (300, 360) 1 w_clear2 = Some (Inr w_next) \<and>
   handle_click (500, 360) 1 w_clear = Some (Inr w_retry) \<and>
   difficulty (game w_retry) = 1 \<and> correct_count (game w_retry) = 0 \<and>
   total_attempts (game w_retry) = 0 \<and> beam (game w_retry) = None \<and>
   length (meteors (game w_retry)) = 4 \<and> state (game w_retry) = Playing \<and>
   next_question (set_difficulty 2 (qgen (game w_clear))) (rng w_clear)
     = Inr ((12, 3, 4), stream_of [3, 4, 5]) \<and>
   stream_of [3, 4, 5] 0 mod 7 = 3 \<and> stream_of [3, 4, 5] 1 mod 7 = 4 \<and>
   stream_of [3, 4, 5] 2 mod 7 = 5 \<and>
   (\<exists>u. handle_click (300, 360) 1 w_clear = Some (Inr u))"
proof -
  let ?bs = "[((250, 345, 160, 50), Tag_next), ((430, 345, 160, 50), Tag_retry),
              ((610, 345, 160, 50), Tag_menu)] :: (rect \<times> tag) list"
  have s1: "state (game w_clear) = Level_clear" and b1: "buttons (game w_clear) = Some ?bs"
    and s2: "state (game w_clear2) = Level_clear" and b2: "buttons (game w_clear2) = Some ?bs"
    by (simp_all add: w_clear_def w_clear2_def g_next_def g_clear_buttons)
      (simp add: g_clear_def draw_buttons_def)
  have f1: "find (\<lambda>(rc, tg). collidepoint rc (300, 360)) ?bs = Some ((250, 345, 160, 50), Tag_next)"
    and f2: "find (\<lambda>(rc, tg). collidepoint rc (500, 360)) ?bs = Some ((430, 345, 160, 50), Tag_retry)"
    by (simp_all add: collidepoint_def)
  have v: "difficulty (game w_clear) = 1" "correct_count (game w_clear) = 20"
    "beam (game w_clear) = Some (300, 120)" "difficulty (game w_clear2) = 2"
    by (simp_all add: w_clear_def g_clear_def draw_buttons_def w_clear2_def g_next_def)
  have n: "next_question (set_difficulty 2 (qgen (game w_clear))) (rng w_clear)
     = Inr ((12, 3, 4), stream_of [3, 4, 5])"
    using next_question_r_init_tier2 [of 2]
    by (simp add: w_clear_def g_clear_def draw_buttons_def set_difficulty_def py_range_def
        upto.simps)
  have d: "stream_of [3, 4, 5] 0 mod 7 = 3" "stream_of [3, 4, 5] 1 mod 7 = 4"
    "stream_of [3, 4, 5] 2 mod 7 = 5"
    by (simp_all add: stream_of_def)
  note t1 = level_clear_next_retry [OF s1 b1 f1 disjI1 [OF refl], where b = 1 and w' = w_next
      and q = "(12, 3, 4)" and r' = "stream_of [3, 4, 5]"]
  note t2 = level_clear_next_retry [OF s2 b2 f1 disjI1 [OF refl], where b = 1 and w' = w_next]
  note t3 = level_clear_next_retry [OF s1 b1 f2 disjI2 [OF refl], where b = 1 and w' = w_retry]
  from t1 handle_click_w_clear v
  have n1: "difficulty (game w_next) = 2 \<and> correct_count (game w_next) = 0 \<and>
      total_attempts (game w_next) = 0 \<and> beam (game w_next) = None \<and>
      length (meteors (game w_next)) = 4 \<and> state (game w_next) = Playing"
    by simp
  from t1 n d v have r1: "\<exists>u. handle_click (300, 360) 1 w_clear = Some (Inr u)"
    by simp
  from t2 handle_click_w_clear2 v have n2: "difficulty (game w_next) = 2"
    by simp
  from t3 handle_click_w_clear_retry v
  have n3: "difficulty (game w_retry) = 1 \<and> correct_count (game w_retry) = 0 \<and>
      total_attempts (game w_retry) = 0 \<and> beam (game w_retry) = None \<and>
      length (meteors (game w_retry)) = 4 \<and> state (game w_retry) = Playing"
    by simp
  show ?thesis
    using n1 n2 n3 r1 n d s1 s2 v handle_click_w_clear handle_click_w_clear2
      handle_click_w_clear_retry
    by simp
qed

section \<open>The frame update\<close>

lemma and_then_ret [simp]: "and_then m ret = m"
  by (auto simp: and_then_def ret_def split: option.splits sum.splits)

lemma and_then_ret_left [simp]: "and_then (ret v) f = f v"
  by (simp add: and_then_def ret_def)

lemma ret_eq_Inr [simp]: "ret v = Some (Inr u) \<longleftrightarrow> v = u"
  by (simp add: ret_def)

lemma sweep_Nil_ret: "sweep [] = ret"
  by (rule ext) simp

lemma sweep_kept:
  assumes "meteors (game w) = kept @ rest"
    and "\<forall>k\<in>set kept. \<not> m_y k > real_of_int (HEIGHT + 60)"
  shows "sweep rest w =
     (if (\<exists>m\<in>set rest. m_y m > real_of_int (HEIGHT + 60)) \<and>
         kept @ filter (\<lambda>m. \<not> m_y m > real_of_int (HEIGHT + 60)) rest = []
      then make_new_question
             (w\<lparr>game := (game w)\<lparr>meteors := [], total_attempts := total_attempts (game w) + 1\<rparr>\<rparr>)
      else ret (w\<lparr>game := (game w)\<lparr>meteors :=
                  kept @ filter (\<lambda>m. \<not> m_y m > real_of_int (HEIGHT + 60)) rest\<rparr>\<rparr>))"
  using assms
proof (induction rest arbitrary: w kept)
  case Nil
  from Nil(1) [symmetric] show ?case by simp
next
  case (Cons m rest)
  show ?case
  proof (cases "m_y m > real_of_int (HEIGHT + 60)")
    case False
    have "sweep rest w =
     (if (\<exists>m\<in>set rest. m_y m > real_of_int (HEIGHT + 60)) \<and>
         (kept @ [m]) @ filter (\<lambda>m. \<not> m_y m > real_of_int (HEIGHT + 60)) rest = []
      then make_new_question
             (w\<lparr>game := (game w)\<lparr>meteors := [], total_attempts := total_attempts (game w) + 1\<rparr>\<rparr>)
      else ret (w\<lparr>game := (game w)\<lparr>meteors :=
                  (kept @ [m]) @ filter (\<lambda>m. \<not> m_y m > real_of_int (HEIGHT + 60)) rest\<rparr>\<rparr>))"
      using Cons.prems False by (intro Cons.IH) auto
    with False show ?thesis by simp
  next
    case True
    with Cons.prems have notin: "m \<notin> set kept" by auto
    define w1 where "w1 = w\<lparr>game := (game w)\<lparr>meteors := kept @ rest\<rparr>\<rparr>"
    have rm: "remove1 m (meteors (game w)) = kept @ rest"
      using Cons.prems(1) notin by (simp add: remove1_append)
    have ih: "sweep rest w1 =
     (if (\<exists>m\<in>set rest. m_y m > real_of_int (HEIGHT + 60)) \<and>
         kept @ filter (\<lambda>m. \<not> m_y m > real_of_int (HEIGHT + 60)) rest = []
      then make_new_question
             (w1\<lparr>game := (game w1)\<lparr>meteors := [], total_attempts := total_attempts (game w1) + 1\<rparr>\<rparr>)
      else ret (w1\<lparr>game := (game w1)\<lparr>meteors :=
                  kept @ filter (\<lambda>m. \<not> m_y m > real_of_int (HEIGHT + 60)) rest\<rparr>\<rparr>))"
      using Cons.prems(2) by (intro Cons.IH) (simp_all add: w1_def)
    show ?thesis
    proof (cases "kept @ rest = []")
      case e: True
      with True Cons.prems(1) rm show ?thesis
        by (simp add: Let_def sweep_Nil_ret)
    next
      case ne: False
      have ex: "kept = [] \<and> filter (\<lambda>m. \<not> m_y m > real_of_int (HEIGHT + 60)) rest = []
          \<Longrightarrow> \<exists>m\<in>set rest. m_y m > real_of_int (HEIGHT + 60)"
        using ne by (cases rest) (auto simp: filter_empty_conv)
      have "sweep (m # rest) w = sweep rest w1"
        using True Cons.prems(1) rm ne by (auto simp: Let_def w1_def)
      also note ih
      finally show ?thesis
        using True ex by (auto simp: w1_def)
    qed
  qed
qed

lemma sweep_all:
  "sweep (meteors (game w)) w =
     (if meteors (game w) \<noteq> [] \<and>
         filter (\<lambda>m. \<not> m_y m > real_of_int (HEIGHT + 60)) (meteors (game w)) = []
      then make_new_question
             (w\<lparr>game := (game w)\<lparr>meteors := [], total_attempts := total_attempts (game w) + 1\<rparr>\<rparr>)
      else ret (w\<lparr>game := (game w)\<lparr>meteors :=
                  filter (\<lambda>m. \<not> m_y m > real_of_int (HEIGHT + 60)) (meteors (game w))\<rparr>\<rparr>))"
proof -
  have "(\<exists>m\<in>set (meteors (game w)). m_y m > real_of_int (HEIGHT + 60)) \<and>
        filter (\<lambda>m. \<not> m_y m > real_of_int (HEIGHT + 60)) (meteors (game w)) = [] \<longleftrightarrow>
        meteors (game w) \<noteq> [] \<and>
        filter (\<lambda>m. \<not> m_y m > real_of_int (HEIGHT + 60)) (meteors (game w)) = []"
    by (cases "meteors (game w)") (auto simp: filter_empty_conv)
  with sweep_kept [of w "[]" "meteors (game w)"] show ?thesis by simp
qed

lemma collision_scan_result:
  assumes "collision_scan collide w = Some (Inr w')"
  shows "state (game w') = state (game w) \<and> difficulty (game w') = difficulty (game w) \<and>
         qgen (game w') = qgen (game w) \<and> buttons (game w') = buttons (game w) \<and>
         running w' = running w \<and> current_question (game w') = current_question (game w) \<and>
         ((\<exists>b. beam (game w) = Some b \<and> (\<exists>m\<in>set (meteors (game w)). collide m b)) \<and>
            meteors (game w') = [] \<and> timer w' = Some 450 \<and> beam (game w') = None \<and>
            total_attempts (game w') = total_attempts (game w) + 1 \<and>
            correct_count (game w) \<le> correct_count (game w') \<and>
            correct_count (game w') \<le> correct_count (game w) + 1
          \<or>
          \<not> (\<exists>b. beam (game w) = Some b \<and> (\<exists>m\<in>set (meteors (game w)). collide m b)) \<and>
            meteors (game w') = meteors (game w) \<and> timer w' = timer w \<and> rng w' = rng w \<and>
            total_attempts (game w') = total_attempts (game w) \<and>
            correct_count (game w') = correct_count (game w) \<and>
            particles (game w') = particles (game w))"
proof (cases "beam (game w)")
  case None
  with assms show ?thesis by (simp add: collision_scan_def)
next
  case (Some b)
  show ?thesis
  proof (cases "find (\<lambda>m. collide m b) (meteors (game w))")
    case None
    then have "\<not> (\<exists>m\<in>set (meteors (game w)). collide m b)"
      by (simp add: find_None_iff)
    with assms Some None show ?thesis
      by (auto simp: collision_scan_def split: if_splits)
  next
    case (Some m)
    then have ex: "\<exists>m\<in>set (meteors (game w)). collide m b"
      by (auto simp: find_Some_iff)
    from assms \<open>beam (game w) = Some b\<close> Some
    obtain u where u: "on_meteor_hit m w = Some (Inr u)"
      and w': "w' = u\<lparr>game := (game u)\<lparr>beam := None\<rparr>\<rparr>"
      by (auto simp: collision_scan_def and_then_Inr)
    from u obtain a b' c where q: "current_question (game w) = Some (a, b', c)"
      by (cases "current_question (game w)") (auto simp: on_meteor_hit_None)
    from on_meteor_hit_result [OF q, of m] u obtain new r'
      where "u = w\<lparr>game := (game w)\<lparr>total_attempts := total_attempts (game w) + 1,
                          correct_count := correct_count (game w) + (if m_text m = c then 1 else 0),
                          particles := particles (game w) @ new, meteors := []\<rparr>,
                        rng := r', timer := Some 450\<rparr>"
      by auto
    with w' ex \<open>beam (game w) = Some b\<close> show ?thesis by simp
  qed
qed

lemma update_not_playing:
  "state (game w) \<noteq> Playing \<Longrightarrow>
     update dt collide w = Some (Inr (w\<lparr>game := (game w)\<lparr>particles :=
        filter (\<lambda>p. p_age p < p_life p) (map (particle_update dt) (particles (game w)))\<rparr>\<rparr>))"
  by (simp add: update_def Let_def ret_def)

lemma update_playing:
  assumes "state (game w) = Playing"
  shows "update dt collide w =
     and_then (collision_scan collide (moved dt w)) (\<lambda>w4.
       and_then (sweep (meteors (game w4)) w4) (\<lambda>w5.
         ret (if correct_count (game w5) \<ge> TARGET_CORRECT
              then w5\<lparr>game := (game w5)\<lparr>state := Level_clear\<rparr>\<rparr> else w5)))"
  using assms by (simp add: update_def Let_def moved_def)

lemma hit_in_frame_moved:
  "hit_in_frame dt collide w \<longleftrightarrow>
     (\<exists>b. beam (game (moved dt w)) = Some b \<and> (\<exists>m\<in>set (meteors (game (moved dt w))). collide m b))"
  by (cases "beam (game w)") (auto simp: hit_in_frame_def moved_def)

lemma update_playing_result:
  assumes "state (game w) = Playing" and "update dt collide w = Some (Inr w')"
  shows "difficulty (game w') = difficulty (game w) \<and> qgen (game w') = qgen (game w) \<and>
         buttons (game w') = buttons (game w) \<and> running w' = running w \<and>
         state (game w') = (if TARGET_CORRECT \<le> correct_count (game w') then Level_clear else Playing) \<and>
         (hit_in_frame dt collide w \<longrightarrow>
            meteors (game w') = [] \<and> timer w' = Some 450 \<and> beam (game w') = None \<and>
            total_attempts (game w') = total_attempts (game w) + 1 \<and>
            correct_count (game w) \<le> correct_count (game w') \<and>
            correct_count (game w') \<le> correct_count (game w) + 1) \<and>
         (\<not> hit_in_frame dt collide w \<longrightarrow>
            correct_count (game w') = correct_count (game w) \<and> timer w' = timer w \<and>
            (if meteors (game w) \<noteq> [] \<and>
                (\<forall>m\<in>set (meteors (game w)). m_y (meteor_update dt m) > real_of_int (HEIGHT + 60))
             then total_attempts (game w') = total_attempts (game w) + 1 \<and>
                  length (meteors (game w')) = 4 \<and>
                  (\<forall>m\<in>set (meteors (game w')). 1 \<le> m_text m \<and> m_y m \<le> - 60 \<and> \<not> m_hit m) \<and>
                  (\<exists>a b c. current_question (game w') = Some (a, b, c) \<and>
                     c \<in> m_text ` set (meteors (game w')))
             else total_attempts (game w') = total_attempts (game w) \<and>
                  meteors (game w') =
                    filter (\<lambda>m. \<not> m_y m > real_of_int (HEIGHT + 60))
                      (map (meteor_update dt) (meteors (game w))) \<and>
                  current_question (game w') = current_question (game w) \<and>
                  rng w' = rng w))"
proof -
  from assms obtain w4 w5 where cs: "collision_scan collide (moved dt w) = Some (Inr w4)"
    and sw: "sweep (meteors (game w4)) w4 = Some (Inr w5)"
    and w': "w' = (if correct_count (game w5) \<ge> TARGET_CORRECT
                   then w5\<lparr>game := (game w5)\<lparr>state := Level_clear\<rparr>\<rparr> else w5)"
    by (auto simp: update_playing and_then_Inr)
  note c = collision_scan_result [OF cs, folded hit_in_frame_moved]
  note sw' = sw [unfolded sweep_all]
  have m0: "state (game (moved dt w)) = Playing" "difficulty (game (moved dt w)) = difficulty (game w)"
    "qgen (game (moved dt w)) = qgen (game w)" "buttons (game (moved dt w)) = buttons (game w)"
    "running (moved dt w) = running w" "timer (moved dt w) = timer w" "rng (moved dt w) = rng w"
    "current_question (game (moved dt w)) = current_question (game w)"
    "total_attempts (game (moved dt w)) = total_attempts (game w)"
    "correct_count (game (moved dt w)) = correct_count (game w)"
    "meteors (game (moved dt w)) = map (meteor_update dt) (meteors (game w))"
    using assms(1) by (simp_all add: moved_def)
  show ?thesis
  proof (cases "hit_in_frame dt collide w")
    case True
    with c have m4: "meteors (game w4) = []" by auto
    with sw' have "w5 = w4\<lparr>game := (game w4)\<lparr>meteors := []\<rparr>\<rparr>" by simp
    with c True m0 w' show ?thesis by auto
  next
    case False
    with c m0 have m4: "meteors (game w4) = map (meteor_update dt) (meteors (game w))"
      by auto
    show ?thesis
    proof (cases "meteors (game w) \<noteq> [] \<and>
                (\<forall>m\<in>set (meteors (game w)). m_y (meteor_update dt m) > real_of_int (HEIGHT + 60))")
      case True
      with m4 have cond: "meteors (game w4) \<noteq> [] \<and>
          filter (\<lambda>m. \<not> m_y m > real_of_int (HEIGHT + 60)) (meteors (game w4)) = []"
        by (simp add: filter_empty_conv)
      from sw' have "make_new_question
             (w4\<lparr>game := (game w4)\<lparr>meteors := [], total_attempts := total_attempts (game w4) + 1\<rparr>\<rparr>)
           = Some (Inr w5)"
        by (simp only: cond if_True simp_thms)
      from make_new_question_result [OF this] obtain dividend divisor quot ms r'
        where w5: "w5 = w4\<lparr>game := (game w4)\<lparr>meteors := [],
                       total_attempts := total_attempts (game w4) + 1\<rparr>\<rparr>
                     \<lparr>game := (game (w4\<lparr>game := (game w4)\<lparr>meteors := [],
                       total_attempts := total_attempts (game w4) + 1\<rparr>\<rparr>))
                       \<lparr>current_question := Some (dividend, divisor, quot),
                        meteors := ms, question_in_progress := True\<rparr>, rng := r'\<rparr>"
          and ms: "length ms = 4" "\<forall>m\<in>set ms. 1 \<le> m_text m \<and> m_y m \<le> - 60 \<and> \<not> m_hit m"
            "quot \<in> m_text ` set ms"
        by blast
      from c False m0 w' True ms show ?thesis by (auto simp: w5)
    next
      case nf: False
      with m4 have cond: "\<not> (meteors (game w4) \<noteq> [] \<and>
          filter (\<lambda>m. \<not> m_y m > real_of_int (HEIGHT + 60)) (meteors (game w4)) = [])"
        by (auto simp: filter_empty_conv)
      from sw' have "ret (w4\<lparr>game := (game w4)\<lparr>meteors :=
                  filter (\<lambda>m. \<not> m_y m > real_of_int (HEIGHT + 60)) (meteors (game w4))\<rparr>\<rparr>)
           = Some (Inr w5)"
        using cond by (simp only: if_False)
      then have "w5 = w4\<lparr>game := (game w4)\<lparr>meteors :=
                  filter (\<lambda>m. \<not> m_y m > real_of_int (HEIGHT + 60)) (meteors (game w4))\<rparr>\<rparr>"
        by simp
      with c False m0 w' nf m4 show ?thesis by auto
    qed
  qed
qed

lemma and_then_Some_Inr [simp]: "and_then (Some (Inr v)) f = f v"
  by (simp add: and_then_def)

lemma collision_scan_no_hit_returns:
  assumes "\<not> (\<exists>b. beam (game w) = Some b \<and> (\<exists>m\<in>set (meteors (game w)). collide m b))"
  shows "\<exists>w'. collision_scan collide w = Some (Inr w')"
proof (cases "beam (game w)")
  case None
  then show ?thesis by (simp add: collision_scan_def)
next
  case (Some b)
  with assms have "find (\<lambda>m. collide m b) (meteors (game w)) = None"
    by (simp add: find_None_iff)
  with Some show ?thesis by (simp add: collision_scan_def)
qed

lemma collision_scan_hit_returns:
  assumes "\<exists>b. beam (game w) = Some b \<and> (\<exists>m\<in>set (meteors (game w)). collide m b)"
    and "current_question (game w) \<noteq> None"
  shows "\<exists>w'. collision_scan collide w = Some (Inr w')"
proof -
  from assms(1) obtain b where b: "beam (game w) = Some b"
    and ex: "\<exists>m\<in>set (meteors (game w)). collide m b"
    by blast
  from ex obtain m where m: "find (\<lambda>m. collide m b) (meteors (game w)) = Some m"
    by (cases "find (\<lambda>m. collide m b) (meteors (game w))") (auto simp: find_None_iff)
  from assms(2) obtain a b' c where q: "current_question (game w) = Some (a, b', c)"
    by (cases "current_question (game w)") auto
  from on_meteor_hit_result [OF q, of m] obtain u where "on_meteor_hit m w = Some (Inr u)"
    by blast
  with b m show ?thesis by (simp add: collision_scan_def)
qed

lemma update_returns:
  assumes "state (game w) = Playing"
  shows "\<not> hit_in_frame dt collide w \<Longrightarrow>
           \<not> (meteors (game w) \<noteq> [] \<and>
              (\<forall>m\<in>set (meteors (game w)). m_y (meteor_update dt m) > real_of_int (HEIGHT + 60))) \<Longrightarrow>
           \<exists>u. update dt collide w = Some (Inr u)"
    and "\<not> hit_in_frame dt collide w \<Longrightarrow>
           meteors (game w) \<noteq> [] \<and>
           (\<forall>m\<in>set (meteors (game w)). m_y (meteor_update dt m) > real_of_int (HEIGHT + 60)) \<Longrightarrow>
           next_question (qgen (game w)) (rng w) = Inr (q, r1) \<Longrightarrow>
           r1 0 mod 7 = 3 \<Longrightarrow> r1 1 mod 7 = 4 \<Longrightarrow> r1 2 mod 7 = 5 \<Longrightarrow>
           \<exists>u. update dt collide w = Some (Inr u)"
    and "hit_in_frame dt collide w \<Longrightarrow> current_question (game w) \<noteq> None \<Longrightarrow>
           \<exists>u. update dt collide w = Some (Inr u)"
proof -
  have m0: "qgen (game (moved dt w)) = qgen (game w)" "rng (moved dt w) = rng w"
    "current_question (game (moved dt w)) = current_question (game w)"
    "meteors (game (moved dt w)) = map (meteor_update dt) (meteors (game w))"
    by (simp_all add: moved_def)
  have fin: "\<exists>u. update dt collide w = Some (Inr u)"
    if "collision_scan collide (moved dt w) = Some (Inr w4)"
      and "sweep (meteors (game w4)) w4 = Some (Inr w5)" for w4 w5
    using that by (simp add: update_playing [OF assms])
  {
    assume nh: "\<not> hit_in_frame dt collide w"
    then obtain w4 where cs: "collision_scan collide (moved dt w) = Some (Inr w4)"
      using collision_scan_no_hit_returns [of "moved dt w" collide]
      by (auto simp: hit_in_frame_moved)
    from collision_scan_result [OF cs, folded hit_in_frame_moved] nh m0
    have w4: "meteors (game w4) = map (meteor_update dt) (meteors (game w))"
      "qgen (game w4) = qgen (game w)" "rng w4 = rng w"
      by auto
    {
      assume na: "\<not> (meteors (game w) \<noteq> [] \<and>
              (\<forall>m\<in>set (meteors (game w)). m_y (meteor_update dt m) > real_of_int (HEIGHT + 60)))"
      with w4(1) have cond: "\<not> (meteors (game w4) \<noteq> [] \<and>
          filter (\<lambda>m. \<not> m_y m > real_of_int (HEIGHT + 60)) (meteors (game w4)) = [])"
        by (auto simp: filter_empty_conv)
      have "\<exists>w5. sweep (meteors (game w4)) w4 = Some (Inr w5)"
        unfolding sweep_all using cond by (simp only: if_False ret_def) blast
      with cs fin show "\<exists>u. update dt collide w = Some (Inr u)" by blast
    }
    {
      assume al: "meteors (game w) \<noteq> [] \<and>
           (\<forall>m\<in>set (meteors (game w)). m_y (meteor_update dt m) > real_of_int (HEIGHT + 60))"
        and nq: "next_question (qgen (game w)) (rng w) = Inr (q, r1)"
        and d: "r1 0 mod 7 = 3" "r1 1 mod 7 = 4" "r1 2 mod 7 = 5"
      from al w4(1) have cond: "meteors (game w4) \<noteq> [] \<and>
          filter (\<lambda>m. \<not> m_y m > real_of_int (HEIGHT + 60)) (meteors (game w4)) = []"
        by (simp add: filter_empty_conv)
      let ?w = "w4\<lparr>game := (game w4)\<lparr>meteors := [], total_attempts := total_attempts (game w4) + 1\<rparr>\<rparr>"
      have "next_question (qgen (game ?w)) (rng ?w) = Inr (q, r1)"
        using nq w4 by simp
      from make_new_question_returns [OF this d] obtain w5
        where "make_new_question ?w = Some (Inr w5)" by blast
      then have "sweep (meteors (game w4)) w4 = Some (Inr w5)"
        unfolding sweep_all using cond by (simp only: if_True simp_thms)
      with cs fin show "\<exists>u. update dt collide w = Some (Inr u)" by blast
    }
  }
  {
    assume h: "hit_in_frame dt collide w" and cq: "current_question (game w) \<noteq> None"
    then obtain w4 where cs: "collision_scan collide (moved dt w) = Some (Inr w4)"
      using collision_scan_hit_returns [of "moved dt w" collide] m0
      by (auto simp: hit_in_frame_moved)
    from collision_scan_result [OF cs, folded hit_in_frame_moved] h
    have "meteors (game w4) = []" by auto
    then have "\<exists>w5. sweep (meteors (game w4)) w4 = Some (Inr w5)"
      by (simp add: ret_def)
    with cs fin show "\<exists>u. update dt collide w = Some (Inr u)" by blast
  }
qed

text \<open>
  C6. After an update in the playing state no meteor is below the bottom boundary
  \<open>HEIGHT + 60\<close>. In a frame without a hit: when the list was not empty and every moved
  meteor is below the boundary, \<open>total_attempts\<close> grows by exactly 1 and the same update
  leaves the 4 meteors of a new question, all above the screen, with the timer untouched;
  otherwise \<open>total_attempts\<close> is unchanged and the meteors left are exactly the moved ones
  that are not below the boundary. The update returns: always in a frame without a hit
  that leaves a meteor or finds none; in a frame that sweeps all meteors, for every
  question of \<open>next_question\<close> when the three draws that follow pick the offsets 1, 2
  and 3; and in a frame with a hit whenever a question is active.
\<close>

theorem update_offscreen_sweep:
  assumes "state (game w) = Playing"
  shows "(update dt collide w = Some (Inr w') \<longrightarrow>
           (\<forall>m\<in>set (meteors (game w')). \<not> m_y m > real_of_int (HEIGHT + 60)) \<and>
           (\<not> hit_in_frame dt collide w \<longrightarrow>
              (if meteors (game w) \<noteq> [] \<and>
                  (\<forall>m\<in>set (meteors (game w)). m_y (meteor_update dt m) > real_of_int (HEIGHT + 60))
               then total_attempts (game w') = total_attempts (game w) + 1 \<and>
                    correct_count (game w') = correct_count (game w) \<and>
                    timer w' = timer w \<and>
                    length (meteors (game w')) = 4 \<and>
                    (\<forall>m\<in>set (meteors (game w')). m_y m \<le> - 60) \<and>
                    (\<exists>a b c. current_question (game w') = Some (a, b, c) \<and>
                       c \<in> m_text ` set (meteors (game w')))
               else total_attempts (game w') = total_attempts (game w) \<and>
                    meteors (game w') =
                      filter (\<lambda>m. \<not> m_y m > real_of_int (HEIGHT + 60))
                        (map (meteor_update dt) (meteors (game w)))))) \<and>
         (\<not> hit_in_frame dt collide w \<and>
          \<not> (meteors (game w) \<noteq> [] \<and>
             (\<forall>m\<in>set (meteors (game w)). m_y (meteor_update dt m) > real_of_int (HEIGHT + 60))) \<longrightarrow>
            (\<exists>u. update dt collide w = Some (Inr u))) \<and>
         (\<not> hit_in_frame dt collide w \<and>
          meteors (game w) \<noteq> [] \<and>
          (\<forall>m\<in>set (meteors (game w)). m_y (meteor_update dt m) > real_of_int (HEIGHT + 60)) \<and>
          next_question (qgen (game w)) (rng w) = Inr (q, r') \<and>
          r' 0 mod 7 = 3 \<and> r' 1 mod 7 = 4 \<and> r' 2 mod 7 = 5 \<longrightarrow>
            (\<exists>u. update dt collide w = Some (Inr u))) \<and>
         (hit_in_frame dt collide w \<and> current_question (game w) \<noteq> None \<longrightarrow>
            (\<exists>u. update dt collide w = Some (Inr u)))"
proof (intro conjI impI)
  assume u: "update dt collide w = Some (Inr w')"
  note r = update_playing_result [OF assms u]
  show "\<forall>m\<in>set (meteors (game w')). \<not> m_y m > real_of_int (HEIGHT + 60)"
  proof (cases "hit_in_frame dt collide w")
    case True
    with r show ?thesis by simp
  next
    case False
    show ?thesis
    proof (cases "meteors (game w) \<noteq> [] \<and>
                (\<forall>m\<in>set (meteors (game w)). m_y (meteor_update dt m) > real_of_int (HEIGHT + 60))")
      case True
      with r False have "\<forall>m\<in>set (meteors (game w')). m_y m \<le> - 60" by simp
      then show ?thesis by (auto simp: HEIGHT_def)
    next
      case nf: False
      with r False have "meteors (game w') =
                    filter (\<lambda>m. \<not> m_y m > real_of_int (HEIGHT + 60))
                      (map (meteor_update dt) (meteors (game w)))"
        by auto
      then show ?thesis by simp
    qed
  qed
  assume "\<not> hit_in_frame dt collide w"
  with r show "if meteors (game w) \<noteq> [] \<and>
                  (\<forall>m\<in>set (meteors (game w)). m_y (meteor_update dt m) > real_of_int (HEIGHT + 60))
               then total_attempts (game w') = total_attempts (game w) + 1 \<and>
                    correct_count (game w') = correct_count (game w) \<and>
                    timer w' = timer w \<and>
                    length (meteors (game w')) = 4 \<and>
                    (\<forall>m\<in>set (meteors (game w')). m_y m \<le> - 60) \<and>
                    (\<exists>a b c. current_question (game w') = Some (a, b, c) \<and>
                       c \<in> m_text ` set (meteors (game w')))
               else total_attempts (game w') = total_attempts (game w) \<and>
                    meteors (game w') =
                      filter (\<lambda>m. \<not> m_y m > real_of_int (HEIGHT + 60))
                        (map (meteor_update dt) (meteors (game w)))"
    by (simp split: if_splits)
next
  assume "\<not> hit_in_frame dt collide w \<and>
          \<not> (meteors (game w) \<noteq> [] \<and>
             (\<forall>m\<in>set (meteors (game w)). m_y (meteor_update dt m) > real_of_int (HEIGHT + 60)))"
  then show "\<exists>u. update dt collide w = Some (Inr u)"
    using update_returns(1) [OF assms] by blast
next
  assume "\<not> hit_in_frame dt collide w \<and>
          meteors (game w) \<noteq> [] \<and>
          (\<forall>m\<in>set (meteors (game w)). m_y (meteor_update dt m) > real_of_int (HEIGHT + 60)) \<and>
          next_question (qgen (game w)) (rng w) = Inr (q, r') \<and>
          r' 0 mod 7 = 3 \<and> r' 1 mod 7 = 4 \<and> r' 2 mod 7 = 5"
  then show "\<exists>u. update dt collide w = Some (Inr u)"
    using update_returns(2) [OF assms, of dt collide q r'] by blast
next
  assume "hit_in_frame dt collide w \<and> current_question (game w) \<noteq> None"
  then show "\<exists>u. update dt collide w = Some (Inr u)"
    using update_returns(3) [OF assms] by blast
qed

lemma update_w_fall: "update (1 / 60) overlap w_fall = Some (Inr w_fallen)"
proof -
  let ?ms = "[Meteor 145 711 5 120, Meteor 335 712 6 120, Meteor 525 714 7 120, Meteor 715 711 4 120]"
  have p: "state (game w_fall) = Playing"
    by (simp add: w_fall_def g_fall_def)
  have m: "moved (1 / 60) w_fall = w_fall\<lparr>game := g_fall\<lparr>meteors := ?ms\<rparr>\<rparr>"
    by (simp add: moved_def w_fall_def g_fall_def g_init_def Meteor_def meteor_update_def)
  have cs: "collision_scan overlap (w_fall\<lparr>game := g_fall\<lparr>meteors := ?ms\<rparr>\<rparr>)
      = Some (Inr (w_fall\<lparr>game := g_fall\<lparr>meteors := ?ms\<rparr>\<rparr>))"
    by (simp add: collision_scan_def w_fall_def g_fall_def g_init_def)
  have mq: "make_new_question (w_fall\<lparr>game := g_fall\<lparr>meteors := [], total_attempts := 4\<rparr>\<rparr>)
      = Some (Inr w_fallen)"
    by (simp add: make_new_question_345 [where a = 12 and b = 3] next_question_r_init
        w_fall_def g_fall_def w_fallen_def g_init_def)
  have t: "total_attempts g_fall + 1 = 4"
    by (simp add: g_fall_def)
  have sw: "sweep ?ms (w_fall\<lparr>game := g_fall\<lparr>meteors := ?ms\<rparr>\<rparr>) = Some (Inr w_fallen)"
    using sweep_all [of "w_fall\<lparr>game := g_fall\<lparr>meteors := ?ms\<rparr>\<rparr>"]
    by (simp add: HEIGHT_def Meteor_def mq [unfolded Meteor_def] t)
  have c: "correct_count (game w_fallen) = 2"
    by (simp add: w_fallen_def)
  show ?thesis
    by (simp add: update_playing [OF p] m cs sw c TARGET_CORRECT_def del: sweep.simps)
qed

theorem update_offscreen_sweep_witness:
  "state (game w_fall) = Playing \<and> update (1 / 60) overlap w_fall = Some (Inr w_fallen) \<and>
   \<not> hit_in_frame (1 / 60) overlap w_fall \<and>
   map (\<lambda>m. m_y (meteor_update (1 / 60) m)) (meteors (game w_fall)) = [711, 712, 714, 711] \<and>
   real_of_int (HEIGHT + 60) = 710 \<and>
   total_attempts (game w_fall) = 3 \<and> total_attempts (game w_fallen) = 4 \<and>
   correct_count (game w_fallen) = correct_count (game w_fall) \<and>
   timer w_fallen = timer w_fall \<and>
   length (meteors (game w_fallen)) = 4 \<and>
   current_question (game w_fallen) = Some (12, 3, 4) \<and>
   next_question (qgen (game w_fall)) (rng w_fall) = Inr ((12, 3, 4), stream_of [3, 4, 5]) \<and>
   stream_of [3, 4, 5] 0 mod 7 = 3 \<and> stream_of [3, 4, 5] 1 mod 7 = 4 \<and>
   stream_of [3, 4, 5] 2 mod 7 = 5 \<and>
   (\<exists>u. update (1 / 60) overlap w_fall = Some (Inr u))"
proof -
  have p: "state (game w_fall) = Playing"
    by (simp add: w_fall_def g_fall_def)
  have h: "\<not> hit_in_frame (1 / 60) overlap w_fall"
    by (simp add: hit_in_frame_def w_fall_def g_fall_def g_init_def)
  have f: "meteors (game w_fall) \<noteq> [] \<and>
     (\<forall>m\<in>set (meteors (game w_fall)). m_y (meteor_update (1 / 60) m) > real_of_int (HEIGHT + 60))"
    by (simp add: w_fall_def g_fall_def meteor_update_def Meteor_def HEIGHT_def)
  have v: "total_attempts (game w_fall) = 3" "current_question (game w_fallen) = Some (12, 3, 4)"
    by (simp_all add: w_fall_def g_fall_def w_fallen_def g_init_def)
  have y: "map (\<lambda>m. m_y (meteor_update (1 / 60) m)) (meteors (game w_fall)) = [711, 712, 714, 711]"
    "real_of_int (HEIGHT + 60) = 710"
    by (simp_all add: w_fall_def g_fall_def meteor_update_def Meteor_def HEIGHT_def)
  have n: "next_question (qgen (game w_fall)) (rng w_fall) = Inr ((12, 3, 4), stream_of [3, 4, 5])"
    using next_question_r_init [of 0] by (simp add: w_fall_def g_fall_def g_init_def)
  have d: "stream_of [3, 4, 5] 0 mod 7 = 3" "stream_of [3, 4, 5] 1 mod 7 = 4"
    "stream_of [3, 4, 5] 2 mod 7 = 5"
    by (simp_all add: stream_of_def)
  note t = update_offscreen_sweep [OF p, where dt = "1 / 60" and collide = overlap
      and w' = w_fallen and q = "(12, 3, 4)" and r' = "stream_of [3, 4, 5]"]
  from t h f n d have "\<exists>u. update (1 / 60) overlap w_fall = Some (Inr u)"
    by blast
  moreover from t update_w_fall h f
  have "total_attempts (game w_fallen) = total_attempts (game w_fall) + 1 \<and>
        correct_count (game w_fallen) = correct_count (game w_fall) \<and>
        timer w_fallen = timer w_fall \<and> length (meteors (game w_fallen)) = 4"
    by simp
  ultimately show ?thesis
    using p h v y n d update_w_fall by simp
qed

section \<open>Invariants of the main loop\<close>

lemma Game_init_result:
  assumes "Game_init r = Some (Inr w)"
  shows "state (game w) = Menu \<and> correct_count (game w) = 0 \<and> total_attempts (game w) = 0 \<and>
         difficulty (game w) = 0 \<and> timer w = None \<and> running w"
proof -
  from assms obtain u where u: "reset_play
          \<lparr>game = \<lparr>state = Menu, difficulty = 0, qgen = QuestionGenerator 0, correct_count = 0,
                   total_attempts = 0, current_question = None, meteors = [],
                   ship_x = WIDTH div 2, ship_y = HEIGHT - 80, beam = None, beam_speed = 900,
                   spawn_timer = 0, question_in_progress = False, particles = [],
                   explosions = [], buttons = None\<rparr>,
           rng = r, timer = None, running = True\<rparr> = Some (Inr u)"
    and w: "w = u\<lparr>game := (game u)\<lparr>particles := [], explosions := []\<rparr>\<rparr>"
    by (auto simp: Game_init_def and_then_Inr)
  from reset_play_result [OF u] show ?thesis by (simp add: w)
qed

lemma handle_click_result:
  assumes "handle_click pos b w = Some (Inr w')"
  shows "timer w' = timer w \<and> running w' = running w \<and>
         (state (game w) \<noteq> Playing \<and> state (game w') = Playing \<and>
            correct_count (game w') = 0 \<and> total_attempts (game w') = 0 \<and>
            beam (game w') = None \<and> length (meteors (game w')) = 4
          \<or>
          correct_count (game w') = correct_count (game w) \<and>
          total_attempts (game w') = total_attempts (game w) \<and>
          meteors (game w') = meteors (game w) \<and>
          current_question (game w') = current_question (game w) \<and>
          (state (game w') = state (game w) \<or>
           state (game w) = Level_clear \<and> state (game w') = Menu))"
proof (cases "state (game w)")
  case Playing
  with assms show ?thesis by (auto simp: handle_click_def fire_beam_def)
next
  case Menu
  show ?thesis
  proof (cases "find (\<lambda>i. collidepoint (WIDTH div 2 - 220 + i * 220, 320, 200, 48) pos) [0, 1, 2]")
    case None
    with assms Menu show ?thesis by (simp add: handle_click_def)
  next
    case (Some i)
    with assms Menu obtain u
      where u: "reset_play (w\<lparr>game := (game w)\<lparr>difficulty := i,
                                 qgen := set_difficulty i (qgen (game w))\<rparr>\<rparr>) = Some (Inr u)"
        and w': "w' = u\<lparr>game := (game u)\<lparr>state := Playing\<rparr>\<rparr>"
      by (auto simp: handle_click_def and_then_Inr)
    from reset_play_result [OF u] Menu show ?thesis by (simp add: w')
  qed
next
  case Level_clear
  show ?thesis
  proof (cases "buttons (game w)")
    case None
    with assms Level_clear show ?thesis by (simp add: handle_click_def)
  next
    case (Some bs)
    show ?thesis
    proof (cases "find (\<lambda>(rc, tg). collidepoint rc pos) bs")
      case None
      with assms Level_clear Some show ?thesis by (simp add: handle_click_def)
    next
      case f: (Some p)
      obtain rc tg where p: "p = (rc, tg)" by (cases p)
      show ?thesis
      proof (cases "tg = Tag_next \<or> tg = Tag_retry")
        case True
        define w1 where "w1 =
          (if tg = Tag_next then
             (if difficulty (game w) < 2
              then w\<lparr>game := (game w)\<lparr>difficulty := difficulty (game w) + 1,
                     qgen := set_difficulty (difficulty (game w) + 1) (qgen (game w))\<rparr>\<rparr>
              else w)
           else w\<lparr>game := (game w)\<lparr>qgen := set_difficulty (difficulty (game w)) (qgen (game w))\<rparr>\<rparr>)"
        have "handle_click pos b w =
            and_then (reset_play w1) (\<lambda>w'. ret (w'\<lparr>game := (game w')\<lparr>state := Playing\<rparr>\<rparr>))"
          using Level_clear Some f p True by (auto simp: handle_click_def w1_def Let_def)
        with assms obtain u where u: "reset_play w1 = Some (Inr u)"
          and w': "w' = u\<lparr>game := (game u)\<lparr>state := Playing\<rparr>\<rparr>"
          by (auto simp: and_then_Inr)
        have "timer w1 = timer w" "running w1 = running w"
          by (simp_all add: w1_def)
        with reset_play_result [OF u] Level_clear show ?thesis by (simp add: w')
      next
        case False
        with assms Level_clear Some f p show ?thesis
          by (cases tg) (auto simp: handle_click_def)
      qed
    qed
  qed
qed

lemma handle_event_result:
  assumes "handle_event e w = Some (Inr w')"
  shows "(\<exists>pos. e = MOUSEBUTTONDOWN pos 1) \<and> state (game w) \<noteq> Playing \<and>
           state (game w') = Playing \<and>
           correct_count (game w') = 0 \<and> total_attempts (game w') = 0
         \<or>
         correct_count (game w') = correct_count (game w) \<and>
         total_attempts (game w') = total_attempts (game w) \<and>
         (state (game w') = state (game w) \<or> state (game w') = Menu)"
proof (cases e)
  case QUIT
  with assms show ?thesis by (auto simp: handle_event_def)
next
  case (MOUSEMOTION p)
  with assms show ?thesis by (auto simp: handle_event_def split: if_splits)
next
  case (MOUSEBUTTONDOWN p b)
  show ?thesis
  proof (cases "b = 1")
    case True
    with assms MOUSEBUTTONDOWN have "handle_click p b w = Some (Inr w')"
      by (simp add: handle_event_def)
    from handle_click_result [OF this] MOUSEBUTTONDOWN True show ?thesis by auto
  next
    case False
    with assms MOUSEBUTTONDOWN show ?thesis by (simp add: handle_event_def)
  qed
next
  case (KEYDOWN k)
  with assms show ?thesis by (auto simp: handle_event_def split: if_splits)
next
  case USEREVENT_1
  with assms have "make_new_question (w\<lparr>timer := None\<rparr>) = Some (Inr w')"
    by (simp add: handle_event_def)
  from make_new_question_result [OF this] show ?thesis by auto
next
  case OTHER_EVENT
  with assms show ?thesis by (simp add: handle_event_def)
qed

lemma update_counts:
  assumes "update dt collide w = Some (Inr w')"
  shows "correct_count (game w) \<le> correct_count (game w') \<and>
         correct_count (game w') \<le> correct_count (game w) + 1 \<and>
         total_attempts (game w) \<le> total_attempts (game w') \<and>
         correct_count (game w') - correct_count (game w)
           \<le> total_attempts (game w') - total_attempts (game w) \<and>
         (state (game w) \<noteq> Playing \<longrightarrow>
            state (game w') = state (game w) \<and>
            correct_count (game w') = correct_count (game w) \<and>
            total_attempts (game w') = total_attempts (game w)) \<and>
         (state (game w) = Playing \<longrightarrow>
            state (game w') =
              (if TARGET_CORRECT \<le> correct_count (game w') then Level_clear else Playing))"
proof (cases "state (game w) = Playing")
  case False
  with assms update_not_playing [OF False, of dt collide] show ?thesis by auto
next
  case True
  note r = update_playing_result [OF True assms]
  show ?thesis
  proof (cases "hit_in_frame dt collide w")
    case h: True
    with r True show ?thesis by simp
  next
    case h: False
    with r True show ?thesis by (simp split: if_splits)
  qed
qed

lemma draw_fields:
  "correct_count (game (draw w)) = correct_count (game w) \<and>
   total_attempts (game (draw w)) = total_attempts (game w) \<and>
   state (game (draw w)) = state (game w)"
  by (cases "state (game w)") (simp_all add: draw_def draw_buttons_def)

text \<open>Each iteration of the main loop takes a reachable state to a reachable state.\<close>

lemma handle_events_reachable:
  "reachable w \<Longrightarrow> handle_events es w = Some (Inr w') \<Longrightarrow> reachable w'"
proof (induction es arbitrary: w)
  case Nil
  then show ?case by simp
next
  case (Cons e es)
  from Cons.prems(2) obtain u where u: "handle_event e w = Some (Inr u)"
    and r: "handle_events es u = Some (Inr w')"
    by (auto simp: and_then_Inr)
  from Cons.prems(1) u have "reachable u" by (rule reach_event)
  then show ?case using r by (rule Cons.IH)
qed

lemma frame_reachable:
  assumes "reachable w" and "frame dt es collide w = Some (Inr w')"
  shows "reachable w'"
proof -
  from assms(2) obtain w1 w2 where 1: "handle_events es w = Some (Inr w1)"
    and 2: "update dt collide w1 = Some (Inr w2)" and 3: "w' = draw w2"
    by (auto simp: frame_def and_then_Inr)
  from assms(1) 1 have "reachable w1" by (rule handle_events_reachable)
  then have "reachable w2" using 2 by (rule reach_update)
  then show ?thesis unfolding 3 by (rule reach_draw)
qed

lemma reachable_inv:
  "reachable w \<Longrightarrow>
     0 \<le> correct_count (game w) \<and> correct_count (game w) \<le> total_attempts (game w) \<and>
     correct_count (game w) \<le> TARGET_CORRECT \<and>
     (state (game w) = Playing \<longrightarrow> correct_count (game w) < TARGET_CORRECT)"
proof (induction rule: reachable.induct)
  case (reach_init r w)
  from Game_init_result [OF reach_init] show ?case by (simp add: TARGET_CORRECT_def)
next
  case (reach_event w e w')
  from handle_event_result [OF reach_event(2)] reach_event(3) show ?case
    by (auto simp: TARGET_CORRECT_def)
next
  case (reach_update w dt collide w')
  from update_counts [OF reach_update(2)] reach_update(3) show ?case
    by (cases "state (game w) = Playing") (auto split: if_splits)
next
  case (reach_draw w)
  with draw_fields [of w] show ?case by simp
qed

lemma on_meteor_hit_eq:
  assumes "current_question (game w) = Some (a, b, c)"
  shows "on_meteor_hit m w =
     Some (Inr (w\<lparr>game := (game w)\<lparr>
                    total_attempts := total_attempts (game w) + 1,
                    correct_count := correct_count (game w) + (if m_text m = c then 1 else 0),
                    particles := fst (spawn_particles (if m_text m = c then 30 else 12)
                                   (real_of_int (m_x m), m_y m) (particles (game w)) (rng w)),
                    meteors := []\<rparr>,
                 rng := snd (spawn_particles (if m_text m = c then 30 else 12)
                           (real_of_int (m_x m), m_y m) (particles (game w)) (rng w)),
                 timer := Some 450\<rparr>))"
  using assms by (simp add: on_meteor_hit_def ret_def Let_def split_def)

lemma update_w_shot: "update (1 / 60) overlap (w_shot n k r) = Some (Inr (w_hit n k r))"
proof -
  let ?ms = "[Meteor 145 100 5 60, Meteor 335 100 6 60, Meteor 525 100 7 60, Meteor 715 500 4 60]"
  let ?ms' = "[\<lparr>m_x = 145, m_y = 101, m_text = 5, m_speed = 60, m_hit = False\<rparr>,
               \<lparr>m_x = 335, m_y = 101, m_text = 6, m_speed = 60, m_hit = False\<rparr>,
               \<lparr>m_x = 525, m_y = 101, m_text = 7, m_speed = 60, m_hit = False\<rparr>,
               \<lparr>m_x = 715, m_y = 501, m_text = 4, m_speed = 60, m_hit = False\<rparr>]"
  define w3 where "w3 = (w_shot n k r)\<lparr>game := (game (w_shot n k r))\<lparr>beam := Some (715, 483),
      meteors := ?ms'\<rparr>\<rparr>"
  have p: "state (game (w_shot n k r)) = Playing"
    by (simp add: w_shot_def g_play_def)
  have m: "moved (1 / 60) (w_shot n k r) = w3"
    by (simp add: moved_def w_shot_def g_play_def g_init_def Meteor_def meteor_update_def w3_def)
  have f: "find (\<lambda>m. overlap m (715, 483)) ?ms'
      = Some \<lparr>m_x = 715, m_y = 501, m_text = 4, m_speed = 60, m_hit = False\<rparr>"
    by (simp add: overlap_def)
  have q: "current_question (game w3) = Some (12, 3, 4)"
    by (simp add: w3_def w_shot_def g_play_def g_init_def)
  have b3: "beam (game w3) = Some (715, 483)" and m3: "meteors (game w3) = ?ms'"
    by (simp_all add: w3_def)
  have h: "on_meteor_hit \<lparr>m_x = 715, m_y = 501, m_text = 4, m_speed = 60, m_hit = False\<rparr> w3
      = Some (Inr ((w_hit n k r)\<lparr>game := (game (w_hit n k r))\<lparr>state := Playing,
                     beam := Some (715, 483)\<rparr>\<rparr>))"
    by (simp add: on_meteor_hit_eq [OF q])
      (simp add: w3_def w_shot_def w_hit_def g_play_def g_init_def)
  have cs: "collision_scan overlap w3
      = Some (Inr ((w_hit n k r)\<lparr>game := (game (w_hit n k r))\<lparr>state := Playing\<rparr>\<rparr>))"
    by (simp add: collision_scan_def b3 m3 f h del: find.simps) (simp add: w_hit_def)
  show ?thesis
    by (simp add: update_playing [OF p] m cs sweep_all del: sweep.simps)
      (simp add: w_hit_def)
qed

text \<open>
  C5. In every state of the process \<open>correct_count\<close> is at most \<open>TARGET_CORRECT\<close> (20),
  and below it whenever the state is playing; an update that starts in the playing state
  and ends with \<open>correct_count\<close> at the target or over ends in the level-clear state.
\<close>

theorem correct_count_bounded:
  "(reachable w \<longrightarrow>
      correct_count (game w) \<le> TARGET_CORRECT \<and>
      (state (game w) = Playing \<longrightarrow> correct_count (game w) < TARGET_CORRECT)) \<and>
   (state (game v) = Playing \<and> update dt collide v = Some (Inr v') \<and>
    TARGET_CORRECT \<le> correct_count (game v') \<longrightarrow> state (game v') = Level_clear)"
proof (intro conjI impI)
  assume "reachable w"
  from reachable_inv [OF this]
  show "correct_count (game w) \<le> TARGET_CORRECT"
    and "state (game w) = Playing \<Longrightarrow> correct_count (game w) < TARGET_CORRECT"
    by simp_all
next
  assume a: "state (game v) = Playing \<and> update dt collide v = Some (Inr v') \<and>
    TARGET_CORRECT \<le> correct_count (game v')"
  then have "update dt collide v = Some (Inr v')" by simp
  from update_counts [OF this] a show "state (game v') = Level_clear" by simp
qed

theorem correct_count_bounded_witness:
  "reachable w_init \<and> correct_count (game w_init) \<le> TARGET_CORRECT \<and>
   state (game (w_shot 19 25 (stream_of []))) = Playing \<and>
   update (1 / 60) overlap (w_shot 19 25 (stream_of [])) = Some (Inr (w_hit 19 25 (stream_of []))) \<and>
   TARGET_CORRECT \<le> correct_count (game (w_hit 19 25 (stream_of []))) \<and>
   state (game (w_hit 19 25 (stream_of []))) = Level_clear"
proof -
  have r: "reachable w_init"
    using Game_init_r_init by (rule reach_init)
  have p: "state (game (w_shot 19 25 (stream_of []))) = Playing"
    by (simp add: w_shot_def g_play_def)
  have c: "TARGET_CORRECT \<le> correct_count (game (w_hit 19 25 (stream_of [])))"
    by (simp add: w_hit_def TARGET_CORRECT_def)
  from correct_count_bounded [of w_init "w_shot 19 25 (stream_of [])" "1 / 60" overlap
      "w_hit 19 25 (stream_of [])"] r p c update_w_shot [of 19 25 "stream_of []"]
  show ?thesis by simp
qed

text \<open>
  C10. In every state of the process \<open>0 \<le> correct_count \<le> total_attempts\<close>. An event
  handler leaves both counters as they are, unless it is a primary click outside the
  playing state that resets the play state (both counters 0, state playing). An update
  decreases neither counter and raises \<open>total_attempts\<close> by at least as much as
  \<open>correct_count\<close>. Drawing changes neither.
\<close>

theorem counters_monotone:
  "(reachable w \<longrightarrow>
      0 \<le> correct_count (game w) \<and> correct_count (game w) \<le> total_attempts (game w)) \<and>
   (handle_event e v = Some (Inr v') \<longrightarrow>
      correct_count (game v') = correct_count (game v) \<and>
      total_attempts (game v') = total_attempts (game v)
      \<or>
      (\<exists>pos. e = MOUSEBUTTONDOWN pos 1) \<and> state (game v) \<noteq> Playing \<and>
      state (game v') = Playing \<and>
      correct_count (game v') = 0 \<and> total_attempts (game v') = 0) \<and>
   (update dt collide u = Some (Inr u') \<longrightarrow>
      correct_count (game u) \<le> correct_count (game u') \<and>
      total_attempts (game u) \<le> total_attempts (game u') \<and>
      correct_count (game u') - correct_count (game u)
        \<le> total_attempts (game u') - total_attempts (game u)) \<and>
   correct_count (game (draw w)) = correct_count (game w) \<and>
   total_attempts (game (draw w)) = total_attempts (game w)"
proof (intro conjI impI)
  assume "reachable w"
  from reachable_inv [OF this]
  show "0 \<le> correct_count (game w)"
    and "correct_count (game w) \<le> total_attempts (game w)"
    by simp_all
next
  assume "handle_event e v = Some (Inr v')"
  from handle_event_result [OF this]
  show "correct_count (game v') = correct_count (game v) \<and>
      total_attempts (game v') = total_attempts (game v)
      \<or>
      (\<exists>pos. e = MOUSEBUTTONDOWN pos 1) \<and> state (game v) \<noteq> Playing \<and>
      state (game v') = Playing \<and>
      correct_count (game v') = 0 \<and> total_attempts (game v') = 0"
    by blast
next
  assume "update dt collide u = Some (Inr u')"
  from update_counts [OF this]
  show "correct_count (game u) \<le> correct_count (game u')"
    and "total_attempts (game u) \<le> total_attempts (game u')"
    and "correct_count (game u') - correct_count (game u)
        \<le> total_attempts (game u') - total_attempts (game u)"
    by simp_all
next
  show "correct_count (game (draw w)) = correct_count (game w)"
    and "total_attempts (game (draw w)) = total_attempts (game w)"
    using draw_fields [of w] by simp_all
qed

theorem counters_monotone_witness:
  "reachable w_init \<and> correct_count (game w_init) \<le> total_attempts (game w_init) \<and>
   handle_event (MOUSEBUTTONDOWN (300, 360) 1) w_clear = Some (Inr w_next) \<and>
   (correct_count (game w_next) = correct_count (game w_clear) \<and>
    total_attempts (game w_next) = total_attempts (game w_clear)
    \<or>
    state (game w_clear) \<noteq> Playing \<and> state (game w_next) = Playing \<and>
    correct_count (game w_next) = 0 \<and> total_attempts (game w_next) = 0) \<and>
   update (1 / 60) overlap (w_shot 3 5 (stream_of [])) = Some (Inr (w_hit 3 5 (stream_of []))) \<and>
   correct_count (game (w_hit 3 5 (stream_of []))) - correct_count (game (w_shot 3 5 (stream_of [])))
     \<le> total_attempts (game (w_hit 3 5 (stream_of [])))
        - total_attempts (game (w_shot 3 5 (stream_of [])))"
proof -
  have r: "reachable w_init"
    using Game_init_r_init by (rule reach_init)
  have e: "handle_event (MOUSEBUTTONDOWN (300, 360) 1) w_clear = Some (Inr w_next)"
    by (simp add: handle_event_def handle_click_w_clear)
  from counters_monotone [of w_init "MOUSEBUTTONDOWN (300, 360) 1" w_clear w_next "1 / 60" overlap
      "w_shot 3 5 (stream_of [])" "w_hit 3 5 (stream_of [])"]
    r e update_w_shot [of 3 5 "stream_of []"]
  show ?thesis by simp
qed

section \<open>The menu and the pending timer\<close>

lemma ExplosionParticle_stream:
  "snd (ExplosionParticle pos (stream_of (0 # 0 # 0 # 0 # xs))) = stream_of xs"
  by (simp add: ExplosionParticle_def random_random_def random_uniform_def split_def Let_def)

lemma spawn_particles_stream:
  "snd (spawn_particles n pos ps (stream_of (replicate (4 * n) 0 @ xs))) = stream_of xs"
proof (induction n arbitrary: ps)
  case 0
  show ?case by simp
next
  case (Suc n)
  have e: "replicate (4 * Suc n) 0 @ xs = 0 # 0 # 0 # 0 # (replicate (4 * n) (0::nat) @ xs)"
    by (simp add: numeral_eq_Suc)
  obtain p where p: "ExplosionParticle pos (stream_of (0 # 0 # 0 # 0 # (replicate (4 * n) 0 @ xs)))
      = (p, stream_of (replicate (4 * n) 0 @ xs))"
    using ExplosionParticle_stream [of pos "replicate (4 * n) 0 @ xs"]
    by (cases "ExplosionParticle pos (stream_of (0 # 0 # 0 # 0 # (replicate (4 * n) 0 @ xs)))") simp
  show ?case
    unfolding e by (simp add: p Suc.IH del: replicate.simps)
qed

lemma rng_w_hit_r_late: "rng (w_hit 0 0 r_late) = stream_of [1, 3, 3, 4, 5]"
  using spawn_particles_stream [of 30 "(715, 501)" "[]" "[1, 3, 3, 4, 5]"]
  by (simp add: w_hit_def r_late_def)

lemma next_question_late:
  "next_question \<lparr>qg_difficulty = d, divisors = [1, 2, 3, 4, 5], max_dividend = 20\<rparr>
     (stream_of [1, 3, 3, 4, 5]) = Inr ((8, 2, 4), stream_of [3, 4, 5])"
  by (simp add: next_question_def random_choice_def randbelow_def retry_loop_accept
      random_randint_def)

text \<open>
  C7 as stated fails: a hit arms the timer; escape then puts the game in the menu state with the timer still
  armed and no meteors; the timer event that follows creates the question 8 / 2 and its
  4 meteors in the menu state.
\<close>

theorem timer_fires_in_menu:
  "update (1 / 60) overlap (w_shot 0 0 r_late) = Some (Inr (w_hit 0 0 r_late)) \<and>
   state (game (w_hit 0 0 r_late)) = Playing \<and> timer (w_hit 0 0 r_late) = Some 450 \<and>
   handle_event (KEYDOWN K_ESCAPE) (w_hit 0 0 r_late) = Some (Inr w_hit_menu) \<and>
   state (game w_hit_menu) = Menu \<and> timer w_hit_menu = Some 450 \<and>
   meteors (game w_hit_menu) = [] \<and> current_question (game w_hit_menu) = Some (12, 3, 4) \<and>
   handle_event USEREVENT_1 w_hit_menu = Some (Inr w_late) \<and>
   state (game w_late) = Menu \<and> length (meteors (game w_late)) = 4 \<and>
   current_question (game w_late) = Some (8, 2, 4)"
proof -
  have p: "state (game (w_hit 0 0 r_late)) = Playing" "timer (w_hit 0 0 r_late) = Some 450"
    by (simp_all add: w_hit_def TARGET_CORRECT_def)
  have e: "handle_event (KEYDOWN K_ESCAPE) (w_hit 0 0 r_late) = Some (Inr w_hit_menu)"
    by (simp add: handle_event_def p w_hit_menu_def ret_def)
  have m: "state (game w_hit_menu) = Menu" "timer w_hit_menu = Some 450"
    "meteors (game w_hit_menu) = []" "current_question (game w_hit_menu) = Some (12, 3, 4)"
    by (simp_all add: w_hit_menu_def w_hit_def g_play_def g_init_def)
  have q: "next_question (qgen (game (w_hit_menu\<lparr>timer := None\<rparr>))) (rng (w_hit_menu\<lparr>timer := None\<rparr>))
      = Inr ((8, 2, 4), stream_of [3, 4, 5])"
    using next_question_late [of 0]
    by (simp add: w_hit_menu_def rng_w_hit_r_late) (simp add: w_hit_def g_play_def g_init_def)
  have t: "handle_event USEREVENT_1 w_hit_menu = Some (Inr w_late)"
    by (simp add: handle_event_def make_new_question_345 [OF q])
      (simp add: w_late_def w_hit_menu_def w_hit_def)
  have l: "state (game w_late) = Menu" "length (meteors (game w_late)) = 4"
    "current_question (game w_late) = Some (8, 2, 4)"
    by (simp_all add: w_late_def m)
  show ?thesis
    using update_w_shot [of 0 0 r_late] p e m t l by simp
qed

text \<open>
  C7 (as amended). Escape in the playing state and a click on the button tagged menu in
  the level-clear state change the field \<open>state\<close> to menu and nothing else: the timer,
  the meteors and the beam stay as they are. Whenever the handler of the timer event
  returns, in any state, the timer is off, the state and both counters are unchanged, and
  the game holds a question and 4 meteors made by the handler. The handler returns, in
  any state, for every question of \<open>next_question\<close> when the three draws that follow
  pick the offsets 1, 2 and 3.
\<close>

theorem menu_keeps_timer:
  "(state (game w) = Playing \<longrightarrow>
      handle_event (KEYDOWN K_ESCAPE) w = Some (Inr (w\<lparr>game := (game w)\<lparr>state := Menu\<rparr>\<rparr>))) \<and>
   (state (game w) = Level_clear \<and> buttons (game w) = Some bs \<and>
    find (\<lambda>(rc, tg). collidepoint rc pos) bs = Some (rc, Tag_menu) \<longrightarrow>
      handle_event (MOUSEBUTTONDOWN pos 1) w = Some (Inr (w\<lparr>game := (game w)\<lparr>state := Menu\<rparr>\<rparr>))) \<and>
   (handle_event USEREVENT_1 v = Some (Inr v') \<longrightarrow>
      timer v' = None \<and> state (game v') = state (game v) \<and>
      correct_count (game v') = correct_count (game v) \<and>
      total_attempts (game v') = total_attempts (game v) \<and>
      length (meteors (game v')) = 4 \<and> (\<exists>q. current_question (game v') = Some q)) \<and>
   (next_question (qgen (game v)) (rng v) = Inr (q, r') \<and>
    r' 0 mod 7 = 3 \<and> r' 1 mod 7 = 4 \<and> r' 2 mod 7 = 5 \<longrightarrow>
      (\<exists>u. handle_event USEREVENT_1 v = Some (Inr u)))"
proof (intro conjI impI)
  assume "state (game w) = Playing"
  then show "handle_event (KEYDOWN K_ESCAPE) w = Some (Inr (w\<lparr>game := (game w)\<lparr>state := Menu\<rparr>\<rparr>))"
    by (simp add: handle_event_def ret_def)
next
  assume "state (game w) = Level_clear \<and> buttons (game w) = Some bs \<and>
    find (\<lambda>(rc, tg). collidepoint rc pos) bs = Some (rc, Tag_menu)"
  then show "handle_event (MOUSEBUTTONDOWN pos 1) w = Some (Inr (w\<lparr>game := (game w)\<lparr>state := Menu\<rparr>\<rparr>))"
    by (simp add: handle_event_def handle_click_def ret_def)
next
  assume "handle_event USEREVENT_1 v = Some (Inr v')"
  then have "make_new_question (v\<lparr>timer := None\<rparr>) = Some (Inr v')"
    by (simp add: handle_event_def)
  from make_new_question_result [OF this]
  show "timer v' = None" and "state (game v') = state (game v)"
    and "correct_count (game v') = correct_count (game v)"
    and "total_attempts (game v') = total_attempts (game v)"
    and "length (meteors (game v')) = 4" and "\<exists>q. current_question (game v') = Some q"
    by auto
next
  assume a: "next_question (qgen (game v)) (rng v) = Inr (q, r') \<and>
    r' 0 mod 7 = 3 \<and> r' 1 mod 7 = 4 \<and> r' 2 mod 7 = 5"
  then have "next_question (qgen (game (v\<lparr>timer := None\<rparr>))) (rng (v\<lparr>timer := None\<rparr>)) = Inr (q, r')"
    by simp
  from make_new_question_returns [OF this] a
  show "\<exists>u. handle_event USEREVENT_1 v = Some (Inr u)"
    by (simp add: handle_event_def)
qed

theorem menu_keeps_timer_witness:
  "state (game (w_hit 0 0 r_late)) = Playing \<and>
   handle_event (KEYDOWN K_ESCAPE) (w_hit 0 0 r_late) = Some (Inr w_hit_menu) \<and>
   timer w_hit_menu = timer (w_hit 0 0 r_late) \<and>
   state (game w_clear) = Level_clear \<and>
   handle_event (MOUSEBUTTONDOWN (700, 360) 1) w_clear
     = Some (Inr (w_clear\<lparr>game := (game w_clear)\<lparr>state := Menu\<rparr>\<rparr>)) \<and>
   handle_event USEREVENT_1 w_hit_menu = Some (Inr w_late) \<and>
   timer w_late = None \<and> state (game w_late) = state (game w_hit_menu) \<and>
   correct_count (game w_late) = correct_count (game w_hit_menu) \<and>
   length (meteors (game w_late)) = 4 \<and>
   next_question (qgen (game w_hit_menu)) (rng w_hit_menu) = Inr ((8, 2, 4), stream_of [3, 4, 5]) \<and>
   stream_of [3, 4, 5] 0 mod 7 = 3 \<and> stream_of [3, 4, 5] 1 mod 7 = 4 \<and>
   stream_of [3, 4, 5] 2 mod 7 = 5 \<and>
   (\<exists>u. handle_event USEREVENT_1 w_hit_menu = Some (Inr u))"
proof -
  let ?bs = "[((250, 345, 160, 50), Tag_next), ((430, 345, 160, 50), Tag_retry),
              ((610, 345, 160, 50), Tag_menu)] :: (rect \<times> tag) list"
  have p: "state (game (w_hit 0 0 r_late)) = Playing"
    by (simp add: w_hit_def TARGET_CORRECT_def)
  have s: "state (game w_clear) = Level_clear" and b: "buttons (game w_clear) = Some ?bs"
    by (simp_all add: w_clear_def g_clear_buttons) (simp add: g_clear_def draw_buttons_def)
  have f: "find (\<lambda>(rc, tg). collidepoint rc (700, 360)) ?bs = Some ((610, 345, 160, 50), Tag_menu)"
    by (simp add: collidepoint_def)
  have q: "next_question (qgen (game (w_hit_menu\<lparr>timer := None\<rparr>))) (rng (w_hit_menu\<lparr>timer := None\<rparr>))
      = Inr ((8, 2, 4), stream_of [3, 4, 5])"
    using next_question_late [of 0]
    by (simp add: w_hit_menu_def rng_w_hit_r_late) (simp add: w_hit_def g_play_def g_init_def)
  have t: "handle_event USEREVENT_1 w_hit_menu = Some (Inr w_late)"
    by (simp add: handle_event_def make_new_question_345 [OF q])
      (simp add: w_late_def w_hit_menu_def w_hit_def)
  have m: "w_hit_menu = (w_hit 0 0 r_late)\<lparr>game := (game (w_hit 0 0 r_late))\<lparr>state := Menu\<rparr>\<rparr>"
    by (simp add: w_hit_menu_def)
  have q': "next_question (qgen (game w_hit_menu)) (rng w_hit_menu)
      = Inr ((8, 2, 4), stream_of [3, 4, 5])"
    using q by simp
  have d: "stream_of [3, 4, 5] 0 mod 7 = 3" "stream_of [3, 4, 5] 1 mod 7 = 4"
    "stream_of [3, 4, 5] 2 mod 7 = 5"
    by (simp_all add: stream_of_def)
  from menu_keeps_timer [of "w_hit 0 0 r_late" "?bs" "(700, 360)" "(610, 345, 160, 50)"
      w_hit_menu w_late "(8, 2, 4)" "stream_of [3, 4, 5]"] p t q' d
  have 1: "handle_event (KEYDOWN K_ESCAPE) (w_hit 0 0 r_late) = Some (Inr w_hit_menu)"
    and 3: "timer w_late = None \<and> state (game w_late) = state (game w_hit_menu) \<and>
      correct_count (game w_late) = correct_count (game w_hit_menu) \<and>
      length (meteors (game w_late)) = 4"
    and 4: "\<exists>u. handle_event USEREVENT_1 w_hit_menu = Some (Inr u)"
    by (simp_all add: m)
  from menu_keeps_timer [of w_clear "?bs" "(700, 360)" "(610, 345, 160, 50)"] s b f
  have 2: "handle_event (MOUSEBUTTONDOWN (700, 360) 1) w_clear
     = Some (Inr (w_clear\<lparr>game := (game w_clear)\<lparr>state := Menu\<rparr>\<rparr>))"
    by simp
  show ?thesis using p s t 1 2 3 4 q' d by (simp add: m)
qed

end
